theory Spec2Isabelle
  imports Main "HOL-Library.Word"
begin

section \<open>Package graceful: data model\<close>

text \<open>
  Go values that the package only passes around are kept abstract:
  \<^item> \<open>'u\<close> is \<^verbatim>\<open>uuid.UUID\<close>; its \<^verbatim>\<open>String()\<close> method is the parameter \<open>String\<close> of
    the functions that call it, and the value drawn by \<^verbatim>\<open>uuid.New()\<close> is the parameter
    \<open>u\<close>;
  \<^item> \<open>'p\<close> is a non-nil \<^verbatim>\<open>func(context.Context) error\<close> and \<open>'f\<close> a non-nil
    \<^verbatim>\<open>func() error\<close>; an argument that may be nil is an \<open>option\<close>, \<open>None\<close> being nil.

  \<^verbatim>\<open>time.Duration\<close> is an \<^verbatim>\<open>int64\<close> of nanoseconds: a 64-bit word read with \<open>sint\<close>.
  Go's \<^verbatim>\<open>int\<close> (32 or 64 bits by platform) is only compared and stored by this package,
  never computed with, so it is an \<open>int\<close>.
\<close>

type_synonym duration = "64 word"

type_synonym signal = int

definition Second :: duration where
  "Second = 1000000000"

definition SIGHUP :: signal where
  "SIGHUP = 1"

definition SIGINT :: signal where
  "SIGINT = 2"

definition SIGTERM :: signal where
  "SIGTERM = 15"

definition os_Interrupt :: signal where
  "os_Interrupt = SIGINT"

subsection \<open>Constants (const block and defaultSignals)\<close>

definition defaultMaxShutdownTime :: duration where
  "defaultMaxShutdownTime = 10 * Second"

definition defaultMaxShutdownProcess :: int where
  "defaultMaxShutdownProcess = 5"

definition defaultSignals :: "signal list" where
  "defaultSignals = [os_Interrupt, SIGINT, SIGTERM, SIGHUP]"

subsection \<open>shutdown.go\<close>

text \<open>The struct \<^verbatim>\<open>shutdown\<close>; its field \<^verbatim>\<open>id\<close> is \<open>id_shutdown\<close> here.\<close>

record ('u, 'p) shutdown =
  id_shutdown :: 'u
  tag :: string
  process :: 'p

definition newShutdown ::
  "('u \<Rightarrow> string) \<Rightarrow> 'u \<Rightarrow> string \<Rightarrow> 'p \<Rightarrow> ('u, 'p) shutdown \<times> 'u" where
  "newShutdown String u tg proc =
     (let tg' = (if tg = [] then String u else tg)
      in (\<lparr>id_shutdown = u, tag = tg', process = proc\<rparr>, u))"

subsection \<open>The struct Graceful and its constructors\<close>

text \<open>
  A context is described by how it was derived. \<open>signalCtx\<close> is
  \<^verbatim>\<open>signal.NotifyContext(ctx, signals...)\<close>, \<open>groupCtx\<close> the context that
  \<^verbatim>\<open>errgroup.WithContext(signalCtx)\<close> returns. The group holds the functions handed to
  \<^verbatim>\<open>group.Go\<close>, in the order of the calls; \<^verbatim>\<open>RegisterProcessWithContext\<close> hands over
  a closure that applies the process to \<open>groupCtx\<close>.
\<close>

datatype "context" =
    Background
  | Opaque nat
  | NotifyContext "context" "signal list"
  | GroupContext "context"

datatype ('p, 'f) task = Task 'f | TaskWithContext 'p "context"

record ('u, 'p, 'f) Graceful =
  groupCtx :: "context"
  signalCtx :: "context"
  group :: "('p, 'f) task list"
  shutdowns :: "('u, 'p) shutdown list"
  maxShutdownTime :: duration
  maxShutdownProcess :: int
  cancelOnError :: bool

definition NewWithContext :: "context \<Rightarrow> signal list \<Rightarrow> ('u, 'p, 'f) Graceful" where
  "NewWithContext ctx signals =
     (let signals' = (if length signals = 0 then defaultSignals else signals);
          sctx = NotifyContext ctx signals'
      in \<lparr>groupCtx = GroupContext sctx,
          signalCtx = sctx,
          group = [],
          shutdowns = [],
          maxShutdownTime = defaultMaxShutdownTime,
          maxShutdownProcess = defaultMaxShutdownProcess,
          cancelOnError = False\<rparr>)"

definition New :: "signal list \<Rightarrow> ('u, 'p, 'f) Graceful" where
  "New signals = NewWithContext Background signals"

subsection \<open>Setters\<close>

definition SetCancelOnError ::
  "('u, 'p, 'f) Graceful \<Rightarrow> bool \<Rightarrow> ('u, 'p, 'f) Graceful" where
  "SetCancelOnError g v = g\<lparr>cancelOnError := v\<rparr>"

definition SetMaxShutdownTime ::
  "('u, 'p, 'f) Graceful \<Rightarrow> duration \<Rightarrow> ('u, 'p, 'f) Graceful" where
  "SetMaxShutdownTime g d =
     (if sint d < 1 then g\<lparr>maxShutdownTime := defaultMaxShutdownTime\<rparr>
      else g\<lparr>maxShutdownTime := d\<rparr>)"

definition SetMaxShutdownProcess ::
  "('u, 'p, 'f) Graceful \<Rightarrow> int \<Rightarrow> ('u, 'p, 'f) Graceful" where
  "SetMaxShutdownProcess g n =
     (if n < 1 then g\<lparr>maxShutdownProcess := defaultMaxShutdownProcess\<rparr>
      else g\<lparr>maxShutdownProcess := n\<rparr>)"

subsection \<open>Registration\<close>

definition RegisterProcess ::
  "('u, 'p, 'f) Graceful \<Rightarrow> 'f option \<Rightarrow> ('u, 'p, 'f) Graceful" where
  "RegisterProcess g proc =
     (case proc of
        None \<Rightarrow> g
      | Some f \<Rightarrow> g\<lparr>group := group g @ [Task f]\<rparr>)"

definition RegisterProcessWithContext ::
  "('u, 'p, 'f) Graceful \<Rightarrow> 'p option \<Rightarrow> ('u, 'p, 'f) Graceful" where
  "RegisterProcessWithContext g proc =
     (case proc of
        None \<Rightarrow> g
      | Some p \<Rightarrow> g\<lparr>group := group g @ [TaskWithContext p (groupCtx g)]\<rparr>)"

text \<open>
  The two hook registrations return the receiver after the call and the returned string.
  The mutex only serialises concurrent callers; one call is the atomic step modelled here.
\<close>

definition RegisterShutdownProcessWithTag ::
  "('u \<Rightarrow> string) \<Rightarrow> 'u \<Rightarrow> ('u, 'p, 'f) Graceful \<Rightarrow> 'p option \<Rightarrow> string
     \<Rightarrow> ('u, 'p, 'f) Graceful \<times> string" where
  "RegisterShutdownProcessWithTag String u g proc tg =
     (case proc of
        None \<Rightarrow> (g, [])
      | Some p \<Rightarrow>
          (let (shutdownProcess, i) = newShutdown String u tg p
           in (g\<lparr>shutdowns := shutdowns g @ [shutdownProcess]\<rparr>, String i)))"

definition RegisterShutdownProcess ::
  "('u \<Rightarrow> string) \<Rightarrow> 'u \<Rightarrow> ('u, 'p, 'f) Graceful \<Rightarrow> 'p option
     \<Rightarrow> ('u, 'p, 'f) Graceful \<times> string" where
  "RegisterShutdownProcess String u g proc =
     RegisterShutdownProcessWithTag String u g proc []"

text \<open>One call of the configuration and registration API, and a sequence of calls.\<close>

datatype ('u, 'p, 'f) api_call =
    CallSetCancelOnError bool
  | CallSetMaxShutdownTime duration
  | CallSetMaxShutdownProcess int
  | CallRegisterProcess "'f option"
  | CallRegisterProcessWithContext "'p option"
  | CallRegisterShutdownProcess 'u "'p option"
  | CallRegisterShutdownProcessWithTag 'u "'p option" string

fun call ::
  "('u \<Rightarrow> string) \<Rightarrow> ('u, 'p, 'f) Graceful \<Rightarrow> ('u, 'p, 'f) api_call \<Rightarrow> ('u, 'p, 'f) Graceful" where
  "call String g (CallSetCancelOnError v) = SetCancelOnError g v"
| "call String g (CallSetMaxShutdownTime d) = SetMaxShutdownTime g d"
| "call String g (CallSetMaxShutdownProcess n) = SetMaxShutdownProcess g n"
| "call String g (CallRegisterProcess f) = RegisterProcess g f"
| "call String g (CallRegisterProcessWithContext p) = RegisterProcessWithContext g p"
| "call String g (CallRegisterShutdownProcess u p) = fst (RegisterShutdownProcess String u g p)"
| "call String g (CallRegisterShutdownProcessWithTag u p tg) =
     fst (RegisterShutdownProcessWithTag String u g p tg)"

definition calls ::
  "('u \<Rightarrow> string) \<Rightarrow> ('u, 'p, 'f) Graceful \<Rightarrow> ('u, 'p, 'f) api_call list \<Rightarrow> ('u, 'p, 'f) Graceful" where
  "calls String g cs = foldl (call String) g cs"

section \<open>Running the shutdown hooks: shutdown()\<close>

text \<open>
  Go's \<^verbatim>\<open>error\<close> values: the two errors of package context and any other error, named
  by its message. A nil error is \<open>None\<close>.
\<close>

datatype err = DeadlineExceeded | Canceled | Failure string

type_synonym error = "err option"

text \<open>
  \<^verbatim>\<open>shutdown()\<close> starts goroutines, so one call is a transition system; a run is a list
  of events, each one atomic step of one goroutine (or of the timer). For the hook at
  position \<open>i\<close> of \<^verbatim>\<open>g.shutdowns\<close> there are two goroutines:
  \<^item> the function handed to \<^verbatim>\<open>shutdownGroup.Go\<close> (its execution unit): \<open>Queued\<close> until the
    \<^verbatim>\<open>for\<close> loop reaches it and \<^verbatim>\<open>Go\<close> admits it, \<open>Selecting\<close> from then until its
    \<^verbatim>\<open>select\<close> takes a case, \<open>Resolved r\<close> once it has returned \<open>r\<close>;
  \<^item> the inner goroutine that calls \<^verbatim>\<open>shutdownCopy.process\<close>: \<open>Executing\<close> while the
    process runs, \<open>Sending r\<close> when the process has returned \<open>r\<close> and the goroutine waits to
    send it on the unbuffered \<^verbatim>\<open>errChan\<close>, \<open>Delivered\<close> when the unit has received it.

  A context is \<open>None\<close> while it is not done and \<open>Some e\<close> when \<^verbatim>\<open>Err()\<close> is \<open>e\<close>.
\<close>

datatype unit_state = Queued | Selecting | Resolved error

datatype process_state = NotStarted | Executing | Sending error | Delivered

record shutdown_run =
  submitted :: nat
  units :: "unit_state list"
  processes :: "process_state list"
  shutdownCtx :: error
  shutdownGroupCtx :: error
  shutdownGroupCause :: error
  shutdownGroup_err :: error
  logged :: "(string \<times> error) list"
  returned :: "error option"

datatype shutdown_event =
    Go
  | ProcessReturns nat error
  | ReceiveErr nat
  | CtxDone nat
  | DeadlineFires
  | WaitReturns

text \<open>Cancelling a context that is already done changes nothing.\<close>

definition cancel :: "err \<Rightarrow> error \<Rightarrow> error" where
  "cancel e c = (case c of None \<Rightarrow> Some e | Some x \<Rightarrow> Some x)"

text \<open>The units that hold a slot of the group (\<^verbatim>\<open>SetLimit\<close>): admitted and not returned.\<close>

definition active :: "shutdown_run \<Rightarrow> nat" where
  "active s = count_list (units s) Selecting"

text \<open>The hook functions that are running: started and not yet returned.\<close>

definition running :: "shutdown_run \<Rightarrow> nat" where
  "running s = count_list (processes s) Executing"

definition shutdown_init :: "('u, 'p, 'f) Graceful \<Rightarrow> shutdown_run" where
  "shutdown_init g =
     \<lparr>submitted = 0,
      units = replicate (length (shutdowns g)) Queued,
      processes = replicate (length (shutdowns g)) NotStarted,
      shutdownCtx = None,
      shutdownGroupCtx = None,
      shutdownGroupCause = None,
      shutdownGroup_err = None,
      logged = [],
      returned = None\<rparr>"

text \<open>
  What the group does when a unit returns \<open>r\<close> (errgroup's wrapper around the function
  given to \<^verbatim>\<open>Go\<close>): the first non-nil error is kept as the group's error and cancels the
  group's context with that error as the cause. The unit's slot is free from then on,
  since the unit is \<open>Resolved\<close>.
\<close>

definition unit_returns :: "nat \<Rightarrow> error \<Rightarrow> shutdown_run \<Rightarrow> shutdown_run" where
  "unit_returns i r s =
     (let s' = s\<lparr>units := (units s)[i := Resolved r]\<rparr>
      in case r of
           None \<Rightarrow> s'
         | Some e \<Rightarrow>
             (if shutdownGroup_err s = None
              then s'\<lparr>shutdownGroup_err := Some e,
                      shutdownGroupCtx := cancel Canceled (shutdownGroupCtx s),
                      shutdownGroupCause := cancel e (shutdownGroupCause s)\<rparr>
              else s'))"

text \<open>
  One event of a call of \<^verbatim>\<open>shutdown()\<close>; \<open>None\<close> when the event cannot happen in the state.
  \<^item> \<open>Go\<close>: the next iteration of the \<^verbatim>\<open>for\<close> loop. \<^verbatim>\<open>shutdownGroup.Go\<close> blocks while
    \<open>maxShutdownProcess\<close> units hold a slot (a negative limit is no limit); then the unit
    starts and starts its inner goroutine.
  \<^item> \<open>ProcessReturns i r\<close>: the process of hook \<open>i\<close> returns \<open>r\<close>. The process is the
    caller's function: it may return any value at any time, or never.
  \<^item> \<open>ReceiveErr i\<close>: the \<^verbatim>\<open>select\<close> of unit \<open>i\<close> takes \<^verbatim>\<open>case err := <-errChan\<close>; the
    outcome is logged under the hook's tag, and the unit returns \<open>err\<close> if
    \<open>cancelOnError\<close> and nil otherwise.
  \<^item> \<open>CtxDone i\<close>: the \<^verbatim>\<open>select\<close> of unit \<open>i\<close> takes \<^verbatim>\<open>case <-shutdownGroupCtx.Done()\<close>
    and the unit returns \<^verbatim>\<open>shutdownGroupCtx.Err()\<close>. The inner goroutine is left as it is.
  \<^item> \<open>DeadlineFires\<close>: the timer of \<^verbatim>\<open>context.WithTimeout\<close> cancels \<open>shutdownCtx\<close> with
    \<open>DeadlineExceeded\<close>, and with it the group's context, which is derived from it.
  \<^item> \<open>WaitReturns\<close>: the loop is over and every unit has returned:
    \<^verbatim>\<open>shutdownGroup.Wait()\<close> cancels the group's context and returns the group's error,
    \<^verbatim>\<open>shutdown()\<close> returns it and the deferred \<^verbatim>\<open>shutdownCancel()\<close> runs.
  When both channels of a \<^verbatim>\<open>select\<close> are ready either case may be taken, so both
  \<open>ReceiveErr i\<close> and \<open>CtxDone i\<close> can happen then.
\<close>

fun shutdown_step ::
  "('u, 'p, 'f) Graceful \<Rightarrow> shutdown_event \<Rightarrow> shutdown_run \<Rightarrow> shutdown_run option" where
  "shutdown_step g Go s =
     (if returned s = None \<and> submitted s < length (shutdowns g)
         \<and> (maxShutdownProcess g < 0 \<or> int (active s) < maxShutdownProcess g)
      then Some (s\<lparr>submitted := Suc (submitted s),
                   units := (units s)[submitted s := Selecting],
                   processes := (processes s)[submitted s := Executing]\<rparr>)
      else None)"
| "shutdown_step g (ProcessReturns i r) s =
     (if i < length (processes s) \<and> processes s ! i = Executing
      then Some (s\<lparr>processes := (processes s)[i := Sending r]\<rparr>)
      else None)"
| "shutdown_step g (ReceiveErr i) s =
     (if i < length (units s) \<and> i < length (processes s) \<and> i < length (shutdowns g)
         \<and> units s ! i = Selecting
      then (case processes s ! i of
              Sending r \<Rightarrow>
                Some (unit_returns i (if cancelOnError g then r else None)
                       (s\<lparr>processes := (processes s)[i := Delivered],
                          logged := logged s @ [(tag (shutdowns g ! i), r)]\<rparr>))
            | _ \<Rightarrow> None)
      else None)"
| "shutdown_step g (CtxDone i) s =
     (if i < length (units s) \<and> units s ! i = Selecting
      then (case shutdownGroupCtx s of
              Some e \<Rightarrow> Some (unit_returns i (Some e) s)
            | None \<Rightarrow> None)
      else None)"
| "shutdown_step g DeadlineFires s =
     (if shutdownCtx s = None
      then Some (s\<lparr>shutdownCtx := Some DeadlineExceeded,
                   shutdownGroupCtx := cancel DeadlineExceeded (shutdownGroupCtx s),
                   shutdownGroupCause := cancel DeadlineExceeded (shutdownGroupCause s)\<rparr>)
      else None)"
| "shutdown_step g WaitReturns s =
     (if returned s = None \<and> submitted s = length (shutdowns g) \<and> active s = 0
      then Some (s\<lparr>returned := Some (shutdownGroup_err s),
                   shutdownGroupCtx := cancel Canceled (shutdownGroupCtx s),
                   shutdownGroupCause := cancel Canceled (shutdownGroupCause s),
                   shutdownCtx := cancel Canceled (shutdownCtx s)\<rparr>)
      else None)"

text \<open>A run: the events in order, from a state; \<open>None\<close> if one of them cannot happen.\<close>

fun shutdown_steps ::
  "('u, 'p, 'f) Graceful \<Rightarrow> shutdown_event list \<Rightarrow> shutdown_run \<Rightarrow> shutdown_run option" where
  "shutdown_steps g [] s = Some s"
| "shutdown_steps g (e # es) s =
     (case shutdown_step g e s of
        None \<Rightarrow> None
      | Some s' \<Rightarrow> shutdown_steps g es s')"

section \<open>Wait()\<close>

text \<open>
  The group of the receiver runs the registered background functions (each from its
  registration on) and the function that \<^verbatim>\<open>Wait\<close> hands to \<^verbatim>\<open>g.group.Go\<close>, called
  the waiter here: it waits for \<open>groupCtx\<close> to be done, then calls \<^verbatim>\<open>shutdown()\<close> if
  there is a hook and returns its result, or returns nil.
\<close>

datatype task_state = Running | Finished error

datatype waiter_state = NotCalled | AwaitDone | InShutdown | WaiterDone error

record wait_run =
  tasks :: "task_state list"
  signalCtx_err :: error
  groupCtx_err :: error
  group_err :: error
  waiter :: waiter_state
  shutdown_call :: "shutdown_run option"
  wait_returned :: "error option"

datatype wait_event =
    Signal
  | ParentDone err
  | TaskReturns nat error
  | CallWait
  | GroupCtxDone
  | Shutdown shutdown_event
  | ShutdownReturns
  | GroupWaitReturns

definition wait_init :: "('u, 'p, 'f) Graceful \<Rightarrow> wait_run" where
  "wait_init g =
     \<lparr>tasks = replicate (length (group g)) Running,
      signalCtx_err = None,
      groupCtx_err = None,
      group_err = None,
      waiter = NotCalled,
      shutdown_call = None,
      wait_returned = None\<rparr>"

text \<open>The group's wrapper again: the first non-nil error is kept and cancels \<open>groupCtx\<close>.\<close>

definition group_returns :: "error \<Rightarrow> wait_run \<Rightarrow> wait_run" where
  "group_returns r w =
     (case r of
        None \<Rightarrow> w
      | Some e \<Rightarrow>
          (if group_err w = None
           then w\<lparr>group_err := Some e, groupCtx_err := cancel Canceled (groupCtx_err w)\<rparr>
           else w))"

fun waiter_done :: "waiter_state \<Rightarrow> bool" where
  "waiter_done (WaiterDone r) = True"
| "waiter_done w = False"

text \<open>The context given to \<^verbatim>\<open>NewWithContext\<close>; \<^verbatim>\<open>context.Background()\<close> is never done.\<close>

fun parent :: "context \<Rightarrow> context" where
  "parent (NotifyContext c sigs) = c"
| "parent (GroupContext c) = c"
| "parent c = Background"

text \<open>
  One event of the receiver's lifetime around \<^verbatim>\<open>Wait()\<close>.
  \<^item> \<open>Signal\<close>: one of the subscribed signals arrives: \<open>signalCtx\<close> is cancelled and with
    it \<open>groupCtx\<close>.
  \<^item> \<open>ParentDone e\<close>: the caller's context is done with error \<open>e\<close>.
  \<^item> \<open>TaskReturns j r\<close>: the background function at position \<open>j\<close> of the group returns
    \<open>r\<close>.
  \<^item> \<open>CallWait\<close>: \<^verbatim>\<open>Wait()\<close> is called and hands the waiter to the group.
  \<^item> \<open>GroupCtxDone\<close>: the waiter passes \<^verbatim>\<open><-g.groupCtx.Done()\<close>; with
    \<^verbatim>\<open>len(g.shutdowns) > 0\<close> it calls \<^verbatim>\<open>shutdown()\<close>, otherwise it returns nil.
  \<^item> \<open>Shutdown e\<close>: event \<open>e\<close> of the call of \<^verbatim>\<open>shutdown()\<close>.
  \<^item> \<open>ShutdownReturns\<close>: the waiter returns what \<^verbatim>\<open>shutdown()\<close> returned.
  \<^item> \<open>GroupWaitReturns\<close>: every function of the group has returned: \<^verbatim>\<open>g.group.Wait()\<close>
    and \<^verbatim>\<open>Wait()\<close> return the group's error, and the deferred \<^verbatim>\<open>signalCancel()\<close> runs.
\<close>

fun wait_step ::
  "('u, 'p, 'f) Graceful \<Rightarrow> wait_event \<Rightarrow> wait_run \<Rightarrow> wait_run option" where
  "wait_step g Signal w =
     (if signalCtx_err w = None
      then Some (w\<lparr>signalCtx_err := Some Canceled,
                   groupCtx_err := cancel Canceled (groupCtx_err w)\<rparr>)
      else None)"
| "wait_step g (ParentDone e) w =
     (if parent (signalCtx g) \<noteq> Background \<and> signalCtx_err w = None
      then Some (w\<lparr>signalCtx_err := Some e,
                   groupCtx_err := cancel e (groupCtx_err w)\<rparr>)
      else None)"
| "wait_step g (TaskReturns j r) w =
     (if j < length (tasks w) \<and> tasks w ! j = Running
      then Some (group_returns r (w\<lparr>tasks := (tasks w)[j := Finished r]\<rparr>))
      else None)"
| "wait_step g CallWait w =
     (if waiter w = NotCalled then Some (w\<lparr>waiter := AwaitDone\<rparr>) else None)"
| "wait_step g GroupCtxDone w =
     (if waiter w = AwaitDone \<and> groupCtx_err w \<noteq> None
      then (if length (shutdowns g) > 0
            then Some (w\<lparr>waiter := InShutdown, shutdown_call := Some (shutdown_init g)\<rparr>)
            else Some (group_returns None (w\<lparr>waiter := WaiterDone None\<rparr>)))
      else None)"
| "wait_step g (Shutdown e) w =
     (case shutdown_call w of
        None \<Rightarrow> None
      | Some s \<Rightarrow>
          (case shutdown_step g e s of
             None \<Rightarrow> None
           | Some s' \<Rightarrow> Some (w\<lparr>shutdown_call := Some s'\<rparr>)))"
| "wait_step g ShutdownReturns w =
     (if waiter w = InShutdown
      then (case shutdown_call w of
              None \<Rightarrow> None
            | Some s \<Rightarrow>
                (case returned s of
                   None \<Rightarrow> None
                 | Some r \<Rightarrow> Some (group_returns r (w\<lparr>waiter := WaiterDone r\<rparr>))))
      else None)"
| "wait_step g GroupWaitReturns w =
     (if wait_returned w = None \<and> waiter_done (waiter w)
         \<and> list_all (\<lambda>t. t \<noteq> Running) (tasks w)
      then Some (w\<lparr>wait_returned := Some (group_err w),
                   groupCtx_err := cancel Canceled (groupCtx_err w),
                   signalCtx_err := cancel Canceled (signalCtx_err w)\<rparr>)
      else None)"

fun wait_steps ::
  "('u, 'p, 'f) Graceful \<Rightarrow> wait_event list \<Rightarrow> wait_run \<Rightarrow> wait_run option" where
  "wait_steps g [] w = Some w"
| "wait_steps g (e # es) w =
     (case wait_step g e w of
        None \<Rightarrow> None
      | Some w' \<Rightarrow> wait_steps g es w')"

section \<open>Invariants of a call of shutdown()\<close>

text \<open>
  The shape of the states of a run: the lists have one entry per hook, the loop has
  handed over exactly the hooks before \<open>submitted\<close>, a unit that waits in its \<^verbatim>\<open>select\<close>
  has an inner goroutine that runs or waits to send, \<^verbatim>\<open>shutdown()\<close> has returned only
  after every unit, and the group's error is set only together with the cancellation of
  the group's context.
\<close>

definition wf :: "('u, 'p, 'f) Graceful \<Rightarrow> shutdown_run \<Rightarrow> bool" where
  "wf g s \<longleftrightarrow>
     length (units s) = length (shutdowns g)
     \<and> length (processes s) = length (shutdowns g)
     \<and> submitted s \<le> length (shutdowns g)
     \<and> (\<forall>i < length (shutdowns g). (units s ! i = Queued) = (submitted s \<le> i))
     \<and> (\<forall>i < length (shutdowns g). units s ! i = Selecting \<longrightarrow>
           processes s ! i = Executing \<or> (\<exists>r. processes s ! i = Sending r))
     \<and> (returned s \<noteq> None \<longrightarrow> active s = 0 \<and> submitted s = length (shutdowns g))
     \<and> (shutdownGroup_err s \<noteq> None \<longrightarrow> shutdownGroupCtx s \<noteq> None)
     \<and> (shutdownGroupCtx s = None \<longrightarrow> shutdownCtx s = None \<and> returned s = None)"

text \<open>
  Where the values of a run come from: the group's error is the deadline's or, under
  \<open>cancelOnError\<close>, a logged failure of a hook; a context done before the return is done
  by the deadline or by the group's error; the returned value is the group's error; a
  logged failure under \<open>cancelOnError\<close> and a unit that returned an error have set the
  group's error.
\<close>

definition sound :: "('u, 'p, 'f) Graceful \<Rightarrow> shutdown_run \<Rightarrow> bool" where
  "sound g s \<longleftrightarrow>
     (\<forall>e. shutdownGroup_err s = Some e \<longrightarrow>
        (e = DeadlineExceeded \<and> shutdownCtx s = Some DeadlineExceeded)
        \<or> (cancelOnError g \<and> (\<exists>t. (t, Some e) \<in> set (logged s))))
     \<and> (\<forall>x. shutdownGroupCtx s = Some x \<and> returned s = None \<longrightarrow>
        (x = DeadlineExceeded \<and> shutdownCtx s = Some DeadlineExceeded)
        \<or> (x = Canceled \<and> shutdownGroup_err s \<noteq> None))
     \<and> (\<forall>r. returned s = Some r \<longrightarrow> r = shutdownGroup_err s)
     \<and> (cancelOnError g \<longrightarrow> (\<forall>t e. (t, Some e) \<in> set (logged s) \<longrightarrow>
          shutdownGroup_err s \<noteq> None))
     \<and> (\<forall>i x. i < length (units s) \<and> units s ! i = Resolved (Some x) \<longrightarrow>
          shutdownGroup_err s \<noteq> None)
     \<and> (shutdownGroupCtx s = None \<longrightarrow> shutdownGroupCause s = None)"

definition good :: "('u, 'p, 'f) Graceful \<Rightarrow> shutdown_run \<Rightarrow> bool" where
  "good g s \<longleftrightarrow> wf g s \<and> sound g s"

text \<open>
  Kinds of runs. In a run that is \<open>returns_only\<close> every unit receives what its process
  returns: no deadline, no unit gives up. In a run that is \<open>gives_up_only\<close> no process
  returns and no result is received: units only leave through the context.
\<close>

definition returns_only :: "shutdown_event list \<Rightarrow> bool" where
  "returns_only es \<longleftrightarrow>
     list_all (\<lambda>e. case e of ProcessReturns i r \<Rightarrow> True | ReceiveErr i \<Rightarrow> True
                | Go \<Rightarrow> True | WaitReturns \<Rightarrow> True | _ \<Rightarrow> False) es"

definition gives_up_only :: "shutdown_event list \<Rightarrow> bool" where
  "gives_up_only es \<longleftrightarrow>
     list_all (\<lambda>e. case e of CtxDone i \<Rightarrow> True | Go \<Rightarrow> True | WaitReturns \<Rightarrow> True
                | _ \<Rightarrow> False) es"

section \<open>Invariants of Wait()\<close>

text \<open>
  The shape of the states around \<^verbatim>\<open>Wait()\<close>: the call of \<^verbatim>\<open>shutdown()\<close> exists exactly
  from the moment the waiter makes it, only with a hook registered, and its states are
  those of the transition system above; the waiter returns what \<^verbatim>\<open>shutdown()\<close> returned;
  \<^verbatim>\<open>Wait()\<close> returns after the waiter and every background function; \<open>groupCtx\<close> is
  done whenever \<open>signalCtx\<close> is.
\<close>

definition wait_wf :: "('u, 'p, 'f) Graceful \<Rightarrow> wait_run \<Rightarrow> bool" where
  "wait_wf g w \<longleftrightarrow>
     (\<forall>s. shutdown_call w = Some s \<longrightarrow> good g s \<and> shutdowns g \<noteq> [])
     \<and> (waiter w = InShutdown \<longrightarrow> shutdown_call w \<noteq> None)
     \<and> (waiter w = NotCalled \<or> waiter w = AwaitDone \<longrightarrow> shutdown_call w = None)
     \<and> (\<forall>r. waiter w = WaiterDone r \<longrightarrow>
          (case shutdown_call w of None \<Rightarrow> r = None | Some s \<Rightarrow> returned s = Some r))
     \<and> (\<forall>r. wait_returned w = Some r \<longrightarrow>
          waiter_done (waiter w) \<and> list_all (\<lambda>t. t \<noteq> Running) (tasks w))
     \<and> (groupCtx_err w = None \<longrightarrow> signalCtx_err w = None)"

text \<open>
  The group's error is an error that a background function or the waiter returned, each
  such error sets it, and it is what \<^verbatim>\<open>Wait()\<close> returns.
\<close>

definition wait_sound :: "wait_run \<Rightarrow> bool" where
  "wait_sound w \<longleftrightarrow>
     (\<forall>e. group_err w = Some e \<longrightarrow>
        (\<exists>j < length (tasks w). tasks w ! j = Finished (Some e))
        \<or> waiter w = WaiterDone (Some e))
     \<and> (\<forall>e. waiter w = WaiterDone (Some e) \<longrightarrow> group_err w \<noteq> None)
     \<and> (\<forall>j e. j < length (tasks w) \<and> tasks w ! j = Finished (Some e) \<longrightarrow>
          group_err w \<noteq> None)
     \<and> (\<forall>r. wait_returned w = Some r \<longrightarrow> r = group_err w)"

definition wait_good :: "('u, 'p, 'f) Graceful \<Rightarrow> wait_run \<Rightarrow> bool" where
  "wait_good g w \<longleftrightarrow> wait_wf g w \<and> wait_sound w"

text \<open>
  A run around \<^verbatim>\<open>Wait()\<close> is \<open>calm\<close> when no background function fails, the caller's
  context stays live, and the call of \<^verbatim>\<open>shutdown()\<close> is \<open>returns_only\<close>.
\<close>

definition calm :: "wait_event list \<Rightarrow> bool" where
  "calm es \<longleftrightarrow>
     list_all (\<lambda>e. case e of TaskReturns j r \<Rightarrow> r = None
                | Shutdown ev \<Rightarrow> returns_only [ev]
                | ParentDone x \<Rightarrow> False
                | _ \<Rightarrow> True) es"

section \<open>The scenarios of the package's tests\<close>

text \<open>
  The receivers that \<^verbatim>\<open>TestGraceful_Run\<close> and \<^verbatim>\<open>TestGraceful_CancelOnError\<close> build,
  call by call. Ids are given by their string form, functions by a number.
\<close>

definition TestGraceful_Run :: "(string, nat, nat) Graceful" where
  "TestGraceful_Run =
     calls (\<lambda>u. u) (New [])
       [CallSetMaxShutdownProcess 0,
        CallSetMaxShutdownTime 0,
        CallRegisterProcess None,
        CallRegisterProcessWithContext None,
        CallRegisterShutdownProcess ''uuid-0'' None,
        CallSetMaxShutdownTime (1 * Second),
        CallSetMaxShutdownProcess 1,
        CallSetCancelOnError False,
        CallRegisterProcess (Some 0),
        CallRegisterProcessWithContext (Some 1),
        CallRegisterShutdownProcessWithTag ''uuid-1'' (Some 2) ''test app fiber'',
        CallRegisterShutdownProcess ''uuid-2'' (Some 3)]"

definition TestGraceful_CancelOnError :: "(string, nat, nat) Graceful" where
  "TestGraceful_CancelOnError =
     calls (\<lambda>u. u) (New [])
       [CallSetCancelOnError True,
        CallRegisterProcess (Some 0),
        CallRegisterShutdownProcess ''uuid-1'' (Some 1)]"

text \<open>
  The receiver that \<^verbatim>\<open>main\<close> of the sample builds: one background function, the hook
  \<^verbatim>\<open>http-server\<close>, a hook without tag, \<open>cancelOnError\<close> and a deadline of one second.
\<close>

definition sample_main :: "(string, nat, nat) Graceful" where
  "sample_main =
     calls (\<lambda>u. u) (New [])
       [CallRegisterProcess (Some 0),
        CallRegisterShutdownProcessWithTag ''uuid-1'' (Some 1) ''http-server'',
        CallRegisterShutdownProcess ''uuid-2'' (Some 2),
        CallSetCancelOnError True,
        CallSetMaxShutdownTime (1 * Second)]"

section \<open>Configuration and registration\<close>

lemma sint_defaultMaxShutdownTime: "sint defaultMaxShutdownTime = 10000000000"
  by (simp add: defaultMaxShutdownTime_def Second_def)

lemma shutdowns_call_prefix: "\<exists>ys. shutdowns (call String g c) = shutdowns g @ ys"
  by (cases c)
    (auto simp: SetCancelOnError_def SetMaxShutdownTime_def SetMaxShutdownProcess_def
      RegisterProcess_def RegisterProcessWithContext_def RegisterShutdownProcess_def
      RegisterShutdownProcessWithTag_def newShutdown_def Let_def split: option.splits)

lemma shutdowns_calls_prefix: "\<exists>ys. shutdowns (calls String g cs) = shutdowns g @ ys"
proof (induction cs arbitrary: g)
  case Nil
  show ?case by (simp add: calls_def)
next
  case (Cons c cs)
  obtain ys where a: "shutdowns (call String g c) = shutdowns g @ ys"
    using shutdowns_call_prefix by blast
  obtain zs where b: "shutdowns (calls String (call String g c) cs) = shutdowns (call String g c) @ zs"
    using Cons.IH by blast
  have "shutdowns (calls String g (c # cs)) = shutdowns g @ (ys @ zs)"
    using a b by (simp add: calls_def)
  then show ?case by blast
qed

lemma shutdowns_calls_nth:
  "i < length (shutdowns g) \<Longrightarrow> shutdowns (calls String g cs) ! i = shutdowns g ! i"
proof -
  assume i: "i < length (shutdowns g)"
  obtain ys where "shutdowns (calls String g cs) = shutdowns g @ ys"
    using shutdowns_calls_prefix by blast
  then show ?thesis using i by (simp add: nth_append)
qed

lemma maxShutdownProcess_call:
  "1 \<le> maxShutdownProcess g \<Longrightarrow> 1 \<le> maxShutdownProcess (call String g c)"
  by (cases c)
    (auto simp: SetCancelOnError_def SetMaxShutdownTime_def SetMaxShutdownProcess_def
      RegisterProcess_def RegisterProcessWithContext_def RegisterShutdownProcess_def
      RegisterShutdownProcessWithTag_def newShutdown_def Let_def defaultMaxShutdownProcess_def
      split: option.splits)

lemma maxShutdownProcess_calls:
  "1 \<le> maxShutdownProcess (calls String (NewWithContext ctx sigs) cs)"
proof -
  have "1 \<le> maxShutdownProcess g \<Longrightarrow> 1 \<le> maxShutdownProcess (foldl (call String) g cs)" for g
    by (induction cs arbitrary: g) (simp_all add: maxShutdownProcess_call)
  moreover have "1 \<le> maxShutdownProcess (NewWithContext ctx sigs :: ('a, 'b, 'c) Graceful)"
    by (simp add: NewWithContext_def Let_def defaultMaxShutdownProcess_def)
  ultimately show ?thesis by (simp add: calls_def)
qed

text \<open>
  C4. \<^verbatim>\<open>SetMaxShutdownTime(d)\<close> stores the default of 10 seconds for every \<open>d \<le> 0\<close> and
  \<open>d\<close> itself for every \<open>d > 0\<close>; \<^verbatim>\<open>SetMaxShutdownProcess(n)\<close> stores the default 5 for
  every \<open>n \<le> 0\<close> and \<open>n\<close> for every \<open>n \<ge> 1\<close>. Both setters are total functions of the
  receiver and the argument: there is no error result and no failing branch, and they change
  no other field.
\<close>

theorem C4_setters_defaults:
  "(sint d \<le> 0 \<longrightarrow> maxShutdownTime (SetMaxShutdownTime g d) = defaultMaxShutdownTime)
   \<and> (0 < sint d \<longrightarrow> maxShutdownTime (SetMaxShutdownTime g d) = d)
   \<and> defaultMaxShutdownTime = 10 * Second \<and> sint defaultMaxShutdownTime = 10 * 1000000000
   \<and> (n \<le> 0 \<longrightarrow> maxShutdownProcess (SetMaxShutdownProcess g n) = defaultMaxShutdownProcess)
   \<and> (1 \<le> n \<longrightarrow> maxShutdownProcess (SetMaxShutdownProcess g n) = n)
   \<and> defaultMaxShutdownProcess = 5
   \<and> SetMaxShutdownTime g d = g\<lparr>maxShutdownTime := maxShutdownTime (SetMaxShutdownTime g d)\<rparr>
   \<and> SetMaxShutdownProcess g n
       = g\<lparr>maxShutdownProcess := maxShutdownProcess (SetMaxShutdownProcess g n)\<rparr>"
  using defaultMaxShutdownTime_def sint_defaultMaxShutdownTime
  by (simp add: SetMaxShutdownTime_def SetMaxShutdownProcess_def defaultMaxShutdownProcess_def)

theorem C4_setters_defaults_witness:
  "maxShutdownTime (SetMaxShutdownTime (New [] :: (nat, nat, nat) Graceful) (- 3))
     = defaultMaxShutdownTime
   \<and> maxShutdownTime (SetMaxShutdownTime (New [] :: (nat, nat, nat) Graceful) 0)
     = defaultMaxShutdownTime
   \<and> maxShutdownTime (SetMaxShutdownTime (New [] :: (nat, nat, nat) Graceful) 7) = 7
   \<and> maxShutdownProcess (SetMaxShutdownProcess (New [] :: (nat, nat, nat) Graceful) (- 2)) = 5
   \<and> maxShutdownProcess (SetMaxShutdownProcess (New [] :: (nat, nat, nat) Graceful) 0) = 5
   \<and> maxShutdownProcess (SetMaxShutdownProcess (New [] :: (nat, nat, nat) Graceful) 1) = 1"
  using C4_setters_defaults [of "- 3" "New [] :: (nat, nat, nat) Graceful" "- 2"]
    C4_setters_defaults [of 0 "New [] :: (nat, nat, nat) Graceful" 0]
    C4_setters_defaults [of 7 "New [] :: (nat, nat, nat) Graceful" 1]
  by simp

text \<open>
  C5. A nil function makes each of the four registrations a no-op: the receiver, and with it
  the task group and the hook registry, is returned as it was (nothing is handed to the
  group, no hook is added), and the two hook registrations return the empty string.
\<close>

theorem C5_nil_registration_noop:
  "RegisterProcess g None = g
   \<and> RegisterProcessWithContext g None = g
   \<and> RegisterShutdownProcess String u g None = (g, [])
   \<and> RegisterShutdownProcessWithTag String u g None tg = (g, [])"
  by (simp add: RegisterProcess_def RegisterProcessWithContext_def RegisterShutdownProcess_def
      RegisterShutdownProcessWithTag_def)

text \<open>
  C7. \<^verbatim>\<open>New\<close> and \<^verbatim>\<open>NewWithContext\<close> return a value with \<open>maxShutdownTime\<close> 10 seconds,
  \<open>maxShutdownProcess\<close> 5, \<open>cancelOnError\<close> false and no hook; the signal context subscribes
  to \<open>defaultSignals\<close> = interrupt, SIGINT, SIGTERM, SIGHUP when the caller passes no signal,
  and to exactly the caller's signals otherwise.
\<close>

theorem C7_constructor_defaults:
  "maxShutdownTime (NewWithContext ctx sigs :: ('u, 'p, 'f) Graceful) = 10 * Second
   \<and> maxShutdownProcess (NewWithContext ctx sigs :: ('u, 'p, 'f) Graceful) = 5
   \<and> cancelOnError (NewWithContext ctx sigs :: ('u, 'p, 'f) Graceful) = False
   \<and> shutdowns (NewWithContext ctx sigs :: ('u, 'p, 'f) Graceful) = []
   \<and> (sigs = [] \<longrightarrow>
        signalCtx (NewWithContext ctx sigs :: ('u, 'p, 'f) Graceful)
          = NotifyContext ctx [os_Interrupt, SIGINT, SIGTERM, SIGHUP])
   \<and> (sigs \<noteq> [] \<longrightarrow>
        signalCtx (NewWithContext ctx sigs :: ('u, 'p, 'f) Graceful) = NotifyContext ctx sigs)
   \<and> (New sigs :: ('u, 'p, 'f) Graceful) = NewWithContext Background sigs"
  by (simp add: NewWithContext_def New_def Let_def defaultSignals_def
      defaultMaxShutdownTime_def defaultMaxShutdownProcess_def)

theorem C7_constructor_defaults_witness:
  "signalCtx (New [] :: (nat, nat, nat) Graceful)
     = NotifyContext Background [os_Interrupt, SIGINT, SIGTERM, SIGHUP]
   \<and> signalCtx (New [SIGTERM] :: (nat, nat, nat) Graceful) = NotifyContext Background [SIGTERM]
   \<and> maxShutdownProcess (New [SIGTERM] :: (nat, nat, nat) Graceful) = 5"
  using C7_constructor_defaults [of Background "[]", where ?'u = nat and ?'p = nat and ?'f = nat]
    C7_constructor_defaults [of Background "[SIGTERM]", where ?'u = nat and ?'p = nat and ?'f = nat]
  by simp

lemma newShutdown_eq:
  "newShutdown String u tg p
     = (\<lparr>id_shutdown = u, tag = (if tg = [] then String u else tg), process = p\<rparr>, u)"
  by (simp add: newShutdown_def Let_def)

lemma shutdowns_RegisterShutdownProcessWithTag:
  "shutdowns (fst (RegisterShutdownProcessWithTag String u g (Some p) tg))
     = shutdowns g @ [\<lparr>id_shutdown = u, tag = (if tg = [] then String u else tg), process = p\<rparr>]"
  by (simp add: RegisterShutdownProcessWithTag_def newShutdown_eq)

lemma shutdowns_RegisterShutdownProcess:
  "shutdowns (fst (RegisterShutdownProcess String u g (Some p)))
     = shutdowns g @ [\<lparr>id_shutdown = u, tag = String u, process = p\<rparr>]"
  by (simp add: RegisterShutdownProcess_def shutdowns_RegisterShutdownProcessWithTag)

text \<open>
  C8. Every registration with a non-nil process stores one hook whose tag is the string
  form of its fresh id when the caller gives no tag (\<^verbatim>\<open>RegisterShutdownProcess\<close>, or an
  empty tag) and the caller's tag otherwise, as \<^verbatim>\<open>newShutdown\<close> builds it. No later call of
  the configuration and registration API changes a hook that is in the registry, the new
  one included (and running the shutdown only reads the registry: the transition
  functions take the receiver as a parameter and never return it).
\<close>

theorem C8_registration_tag:
  "shutdowns (fst (RegisterShutdownProcessWithTag String u g (Some p) tg))
     = shutdowns g @ [\<lparr>id_shutdown = u, tag = (if tg = [] then String u else tg), process = p\<rparr>]
   \<and> shutdowns (fst (RegisterShutdownProcess String u g (Some p)))
     = shutdowns g @ [\<lparr>id_shutdown = u, tag = String u, process = p\<rparr>]
   \<and> (tg = [] \<longrightarrow>
        tag (last (shutdowns (fst (RegisterShutdownProcessWithTag String u g (Some p) tg))))
          = String (id_shutdown
              (last (shutdowns (fst (RegisterShutdownProcessWithTag String u g (Some p) tg))))))
   \<and> (tg \<noteq> [] \<longrightarrow>
        tag (last (shutdowns (fst (RegisterShutdownProcessWithTag String u g (Some p) tg)))) = tg)
   \<and> tag (last (shutdowns (fst (RegisterShutdownProcess String u g (Some p)))))
        = String (id_shutdown (last (shutdowns (fst (RegisterShutdownProcess String u g (Some p))))))
   \<and> newShutdown String u tg p
        = (\<lparr>id_shutdown = u, tag = (if tg = [] then String u else tg), process = p\<rparr>, u)
   \<and> (\<forall>i. i < length (shutdowns g) \<longrightarrow>
         shutdowns (calls String g cs) ! i = shutdowns g ! i)
   \<and> shutdowns (calls String (fst (RegisterShutdownProcessWithTag String u g (Some p) tg)) cs)
        ! length (shutdowns g)
        = \<lparr>id_shutdown = u, tag = (if tg = [] then String u else tg), process = p\<rparr>
   \<and> shutdowns (calls String (fst (RegisterShutdownProcess String u g (Some p))) cs)
        ! length (shutdowns g)
        = \<lparr>id_shutdown = u, tag = String u, process = p\<rparr>"
proof -
  let ?h = "\<lparr>id_shutdown = u, tag = (if tg = [] then String u else tg), process = p\<rparr>"
  let ?k = "\<lparr>id_shutdown = u, tag = String u, process = p\<rparr>"
  let ?g1 = "fst (RegisterShutdownProcessWithTag String u g (Some p) tg)"
  let ?g0 = "fst (RegisterShutdownProcess String u g (Some p))"
  have n: "newShutdown String u tg p = (?h, u)" by (rule newShutdown_eq)
  have a: "shutdowns ?g1 = shutdowns g @ [?h]"
    by (rule shutdowns_RegisterShutdownProcessWithTag)
  have b: "shutdowns ?g0 = shutdowns g @ [?k]"
    by (rule shutdowns_RegisterShutdownProcess)
  have c: "\<forall>i. i < length (shutdowns g) \<longrightarrow> shutdowns (calls String g cs) ! i = shutdowns g ! i"
    by (simp add: shutdowns_calls_nth)
  have "length (shutdowns g) < length (shutdowns ?g1)" using a by simp
  then have "shutdowns (calls String ?g1 cs) ! length (shutdowns g)
      = shutdowns ?g1 ! length (shutdowns g)" by (rule shutdowns_calls_nth)
  then have d: "shutdowns (calls String ?g1 cs) ! length (shutdowns g) = ?h" using a by simp
  have "length (shutdowns g) < length (shutdowns ?g0)" using b by simp
  then have "shutdowns (calls String ?g0 cs) ! length (shutdowns g)
      = shutdowns ?g0 ! length (shutdowns g)" by (rule shutdowns_calls_nth)
  then have e: "shutdowns (calls String ?g0 cs) ! length (shutdowns g) = ?k" using b by simp
  have t1: "tg = [] \<longrightarrow> tag (last (shutdowns ?g1)) = String (id_shutdown (last (shutdowns ?g1)))"
    unfolding a by simp
  have t2: "tg \<noteq> [] \<longrightarrow> tag (last (shutdowns ?g1)) = tg" unfolding a by simp
  have t3: "tag (last (shutdowns ?g0)) = String (id_shutdown (last (shutdowns ?g0)))"
    using b by simp
  show ?thesis using a b t1 t2 t3 n c d e by (intro conjI)
qed

theorem C8_registration_tag_witness:
  "shutdowns (fst (RegisterShutdownProcess (\<lambda>n::nat. replicate n CHR ''x'') 3
             (New [] :: (nat, nat, nat) Graceful) (Some 0)))
     = [\<lparr>id_shutdown = 3, tag = ''xxx'', process = 0\<rparr>]
   \<and> shutdowns (fst (RegisterShutdownProcessWithTag (\<lambda>n::nat. replicate n CHR ''x'') 3
             (New [] :: (nat, nat, nat) Graceful) (Some 0) ''db''))
     = [\<lparr>id_shutdown = 3, tag = ''db'', process = 0\<rparr>]
   \<and> shutdowns (calls (\<lambda>n::nat. replicate n CHR ''x'')
        (fst (RegisterShutdownProcess (\<lambda>n::nat. replicate n CHR ''x'') 3
               (New [] :: (nat, nat, nat) Graceful) (Some 0)))
        [CallRegisterShutdownProcess 4 (Some 1), CallSetCancelOnError True]) ! 0
     = \<lparr>id_shutdown = 3, tag = ''xxx'', process = 0\<rparr>"
proof -
  let ?S = "\<lambda>n::nat. replicate n CHR ''x''"
  let ?g = "New [] :: (nat, nat, nat) Graceful"
  let ?cs = "[CallRegisterShutdownProcess 4 (Some 1), CallSetCancelOnError True]
               :: (nat, nat, nat) api_call list"
  have e: "shutdowns ?g = []" by (simp add: New_def NewWithContext_def Let_def)
  have s3: "?S 3 = ''xxx''" by (simp add: numeral_3_eq_3)
  show ?thesis
    using C8_registration_tag [of ?S 3 ?g 0 "''db''" ?cs]
      C8_registration_tag [of ?S 3 ?g 0 "[]" ?cs] e s3
    by simp
qed

text \<open>
  C10. With a non-nil process, \<^verbatim>\<open>RegisterShutdownProcessWithTag\<close> appends exactly one hook
  to the registry: the earlier hooks stay as they are and in their order, the new last hook
  holds the given process and the fresh id, and the returned string is the string form of
  that id. Nothing else of the receiver changes.
\<close>

theorem C10_register_appends_one:
  "shutdowns (fst (RegisterShutdownProcessWithTag String u g (Some p) tg))
     = shutdowns g @ [fst (newShutdown String u tg p)]
   \<and> length (shutdowns (fst (RegisterShutdownProcessWithTag String u g (Some p) tg)))
     = length (shutdowns g) + 1
   \<and> take (length (shutdowns g))
        (shutdowns (fst (RegisterShutdownProcessWithTag String u g (Some p) tg)))
     = shutdowns g
   \<and> process (last (shutdowns (fst (RegisterShutdownProcessWithTag String u g (Some p) tg))))
     = p
   \<and> snd (RegisterShutdownProcessWithTag String u g (Some p) tg)
     = String (id_shutdown
         (last (shutdowns (fst (RegisterShutdownProcessWithTag String u g (Some p) tg)))))
   \<and> fst (RegisterShutdownProcessWithTag String u g (Some p) tg)
     = g\<lparr>shutdowns := shutdowns (fst (RegisterShutdownProcessWithTag String u g (Some p) tg))\<rparr>"
  by (simp add: RegisterShutdownProcessWithTag_def newShutdown_def Let_def)

section \<open>Runs of shutdown(): invariants\<close>


lemma shutdown_steps_invariant:
  assumes "shutdown_steps g es s0 = Some s" and "P s0"
    and "\<And>e s s'. P s \<Longrightarrow> shutdown_step g e s = Some s' \<Longrightarrow> P s'"
  shows "P s"
  using assms(1,2)
proof (induction es arbitrary: s0)
  case Nil
  then show ?case by simp
next
  case (Cons e es)
  then show ?case using assms(3) by (auto split: option.splits)
qed

lemma count_list_update:
  "i < length xs \<Longrightarrow>
     count_list (xs[i := v]) a + (if xs ! i = a then 1 else 0)
       = count_list xs a + (if v = a then 1 else 0)"
proof (induction xs arbitrary: i)
  case Nil
  then show ?case by simp
next
  case (Cons x xs)
  show ?case
  proof (cases i)
    case 0
    then show ?thesis by simp
  next
    case (Suc j)
    then have "j < length xs" using Cons.prems by simp
    from Cons.IH [OF this] show ?thesis using Suc by (auto split: if_splits)
  qed
qed

lemma wf_init: "wf g (shutdown_init g)"
  by (simp add: wf_def shutdown_init_def active_def)

lemma active_resolve:
  "i < length (units s) \<Longrightarrow> units s ! i = Selecting \<Longrightarrow>
   active (unit_returns i r s) = active s - 1 \<and> 0 < active s"
  using count_list_update [of i "units s" "Resolved r" Selecting]
  by (auto simp: active_def unit_returns_def Let_def split: option.splits)

lemma active_pos:
  "i < length (units s) \<Longrightarrow> units s ! i = Selecting \<Longrightarrow> 0 < active s"
  by (metis active_def count_list_0_iff nth_mem not_gr_zero)

lemma unit_returns_fields [simp]:
  "units (unit_returns i r s) = (units s)[i := Resolved r]"
  "processes (unit_returns i r s) = processes s"
  "submitted (unit_returns i r s) = submitted s"
  "returned (unit_returns i r s) = returned s"
  "shutdownCtx (unit_returns i r s) = shutdownCtx s"
  "logged (unit_returns i r s) = logged s"
  by (auto simp: unit_returns_def Let_def split: option.splits)

lemma unit_returns_err:
  "shutdownGroup_err (unit_returns i r s)
     = (case shutdownGroup_err s of None \<Rightarrow> r | Some e \<Rightarrow> Some e)"
  by (auto simp: unit_returns_def Let_def split: option.splits)

lemma unit_returns_ctx:
  "shutdownGroupCtx (unit_returns i r s)
     = (if r \<noteq> None \<and> shutdownGroup_err s = None
        then cancel Canceled (shutdownGroupCtx s) else shutdownGroupCtx s)"
  by (auto simp: unit_returns_def Let_def split: option.splits)

lemma wf_unit_returns:
  assumes "wf g s" and "i < length (shutdowns g)" and "units s ! i = Selecting"
  shows "wf g (unit_returns i r s)"
proof -
  have pos: "0 < active s" using assms active_pos by (simp add: wf_def)
  have ret: "returned s = None" using assms(1) pos by (auto simp: wf_def)
  have sub: "\<not> submitted s \<le> i" using assms by (auto simp: wf_def)
  show ?thesis
    using assms ret sub
    by (auto simp: wf_def nth_list_update unit_returns_err unit_returns_ctx cancel_def
        split: option.splits)
qed

lemma wf_unit_receives:
  assumes "wf g s" and "i < length (shutdowns g)" and "units s ! i = Selecting"
  shows "wf g (unit_returns i r (s\<lparr>processes := (processes s)[i := p], logged := l\<rparr>))"
proof -
  have pos: "0 < active s" using assms active_pos by (simp add: wf_def)
  have ret: "returned s = None" using assms(1) pos by (auto simp: wf_def)
  have sub: "\<not> submitted s \<le> i" using assms by (auto simp: wf_def)
  show ?thesis
    using assms ret sub
    by (auto simp: wf_def nth_list_update unit_returns_err unit_returns_ctx cancel_def
        split: option.splits)
qed

lemma step_Go:
  assumes "shutdown_step g Go s = Some s'"
  obtains "returned s = None" and "submitted s < length (shutdowns g)"
    and "maxShutdownProcess g < 0 \<or> int (active s) < maxShutdownProcess g"
    and "s' = s\<lparr>submitted := Suc (submitted s),
                   units := (units s)[submitted s := Selecting],
                   processes := (processes s)[submitted s := Executing]\<rparr>"
  using assms by (simp split: if_splits)

lemma step_ProcessReturns:
  assumes "shutdown_step g (ProcessReturns i r) s = Some s'"
  obtains "i < length (processes s)" and "processes s ! i = Executing"
    and "s' = s\<lparr>processes := (processes s)[i := Sending r]\<rparr>"
  using assms by (simp split: if_splits)

lemma step_ReceiveErr:
  assumes "shutdown_step g (ReceiveErr i) s = Some s'"
  obtains r where "i < length (units s)" and "i < length (processes s)"
    and "i < length (shutdowns g)" and "units s ! i = Selecting"
    and "processes s ! i = Sending r"
    and "s' = unit_returns i (if cancelOnError g then r else None)
           (s\<lparr>processes := (processes s)[i := Delivered],
              logged := logged s @ [(tag (shutdowns g ! i), r)]\<rparr>)"
  using assms by (simp split: if_splits process_state.splits)

lemma step_CtxDone:
  assumes "shutdown_step g (CtxDone i) s = Some s'"
  obtains x where "i < length (units s)" and "units s ! i = Selecting"
    and "shutdownGroupCtx s = Some x" and "s' = unit_returns i (Some x) s"
  using assms by (simp split: if_splits option.splits)

lemma step_DeadlineFires:
  assumes "shutdown_step g DeadlineFires s = Some s'"
  obtains "shutdownCtx s = None"
    and "s' = s\<lparr>shutdownCtx := Some DeadlineExceeded,
                   shutdownGroupCtx := cancel DeadlineExceeded (shutdownGroupCtx s),
                   shutdownGroupCause := cancel DeadlineExceeded (shutdownGroupCause s)\<rparr>"
  using assms by (simp split: if_splits)

lemma step_WaitReturns:
  assumes "shutdown_step g WaitReturns s = Some s'"
  obtains "returned s = None" and "submitted s = length (shutdowns g)" and "active s = 0"
    and "s' = s\<lparr>returned := Some (shutdownGroup_err s),
                   shutdownGroupCtx := cancel Canceled (shutdownGroupCtx s),
                   shutdownGroupCause := cancel Canceled (shutdownGroupCause s),
                   shutdownCtx := cancel Canceled (shutdownCtx s)\<rparr>"
  using assms by (simp split: if_splits)

lemma wf_step:
  assumes "wf g s" and "shutdown_step g e s = Some s'"
  shows "wf g s'"
proof (cases e)
  case Go
  with assms(2) have "shutdown_step g Go s = Some s'" by simp
  then show ?thesis
  proof (rule step_Go)
    assume "returned s = None" "submitted s < length (shutdowns g)"
      and s': "s' = s\<lparr>submitted := Suc (submitted s),
                   units := (units s)[submitted s := Selecting],
                   processes := (processes s)[submitted s := Executing]\<rparr>"
    then show ?thesis using assms(1)
      by (auto simp: wf_def nth_list_update)
  qed
next
  case (ProcessReturns i r)
  with assms(2) have "shutdown_step g (ProcessReturns i r) s = Some s'" by simp
  then show ?thesis
  proof (rule step_ProcessReturns)
    assume "i < length (processes s)"
      and s': "s' = s\<lparr>processes := (processes s)[i := Sending r]\<rparr>"
    then show ?thesis using assms(1)
      by (auto simp: wf_def active_def nth_list_update)
  qed
next
  case (ReceiveErr i)
  with assms(2) have "shutdown_step g (ReceiveErr i) s = Some s'" by simp
  then show ?thesis
    using assms(1) by (elim step_ReceiveErr) (simp add: wf_unit_receives)
next
  case (CtxDone i)
  with assms(2) have "shutdown_step g (CtxDone i) s = Some s'" by simp
  then show ?thesis
  proof (rule step_CtxDone)
    fix x assume i: "i < length (units s)" "units s ! i = Selecting"
      and s': "s' = unit_returns i (Some x) s"
    have "i < length (shutdowns g)" using i assms(1) by (simp add: wf_def)
    then show ?thesis unfolding s' using assms(1) i by (intro wf_unit_returns) auto
  qed
next
  case DeadlineFires
  with assms(2) have "shutdown_step g DeadlineFires s = Some s'" by simp
  then show ?thesis
    using assms(1)
    by (elim step_DeadlineFires) (auto simp: wf_def active_def cancel_def split: option.splits)
next
  case WaitReturns
  with assms(2) have "shutdown_step g WaitReturns s = Some s'" by simp
  then show ?thesis
    using assms(1)
    by (elim step_WaitReturns) (auto simp: wf_def active_def cancel_def split: option.splits)
qed

lemma shutdown_steps_invariant_in:
  assumes "shutdown_steps g es s0 = Some s" and "P s0"
    and "\<And>e s s'. e \<in> set es \<Longrightarrow> P s \<Longrightarrow> shutdown_step g e s = Some s' \<Longrightarrow> P s'"
  shows "P s"
  using assms
proof (induction es arbitrary: s0)
  case Nil
  then show ?case by simp
next
  case (Cons e es)
  from Cons.prems(1) obtain s1 where s1: "shutdown_step g e s0 = Some s1"
    and rest: "shutdown_steps g es s1 = Some s"
    by (auto split: option.splits)
  have "P s1" using Cons.prems(3) [of e s0 s1] Cons.prems(2) s1 by simp
  moreover have "\<And>e' t t'. e' \<in> set es \<Longrightarrow> P t \<Longrightarrow> shutdown_step g e' t = Some t' \<Longrightarrow> P t'"
    using Cons.prems(3) by (meson list.set_intros(2))
  ultimately show ?case using Cons.IH [OF rest] by blast
qed

lemma wf_steps: "wf g s0 \<Longrightarrow> shutdown_steps g es s0 = Some s \<Longrightarrow> wf g s"
  using shutdown_steps_invariant [where P = "wf g"] wf_step by blast

lemma wf_reachable: "shutdown_steps g es (shutdown_init g) = Some s \<Longrightarrow> wf g s"
  using wf_steps wf_init by blast

lemma active_Go:
  assumes "wf g s" and "shutdown_step g Go s = Some s'"
  shows "active s' = Suc (active s)"
proof -
  have sub: "submitted s < length (shutdowns g)" using assms(2) by (auto split: if_splits)
  then have q: "units s ! submitted s = Queued" and len: "submitted s < length (units s)"
    using assms(1) by (auto simp: wf_def)
  have s': "units s' = (units s)[submitted s := Selecting]"
    using assms(2) by (auto split: if_splits)
  show ?thesis
    using count_list_update [OF len, of Selecting Selecting] q
    by (simp add: active_def s')
qed

lemma active_unit_returns:
  assumes "i < length (units s)" and "units s ! i = Selecting"
  shows "Suc (active (unit_returns i r s)) = active s"
  using count_list_update [OF assms(1), of "Resolved r" Selecting] assms(2)
  by (simp add: active_def)

lemma cap_step:
  assumes "wf g s" and "shutdown_step g e s = Some s'"
    and "int (active s) \<le> maxShutdownProcess g"
  shows "int (active s') \<le> maxShutdownProcess g"
proof (cases e)
  case Go
  then have "active s' = Suc (active s)" using assms active_Go by blast
  moreover have "int (active s) < maxShutdownProcess g"
    using Go assms(2,3) by (auto split: if_splits)
  ultimately show ?thesis by simp
next
  case (ProcessReturns i r)
  then show ?thesis using assms by (auto simp: active_def split: if_splits)
next
  case (ReceiveErr i)
  then obtain r t where s': "s' = unit_returns i r t" and t: "units t = units s"
    and i: "i < length (units s)" "units s ! i = Selecting"
    using assms(2) by (auto split: if_splits process_state.splits)
  have "Suc (active s') = active t"
    unfolding s' using i t by (intro active_unit_returns) auto
  moreover have "active t = active s" using t by (simp add: active_def)
  ultimately show ?thesis using assms(3) by simp
next
  case (CtxDone i)
  then obtain x where s': "s' = unit_returns i (Some x) s"
    and i: "i < length (units s)" "units s ! i = Selecting"
    using assms(2) by (auto split: if_splits option.splits)
  have "Suc (active s') = active s"
    unfolding s' using i by (rule active_unit_returns)
  then show ?thesis using assms(3) by simp
next
  case DeadlineFires
  then show ?thesis using assms by (auto simp: active_def split: if_splits)
next
  case WaitReturns
  then show ?thesis using assms by (auto simp: active_def split: if_splits)
qed

lemma cap_reachable:
  assumes "shutdown_steps g es (shutdown_init g) = Some s" and "0 \<le> maxShutdownProcess g"
  shows "int (active s) \<le> maxShutdownProcess g"
proof -
  let ?P = "\<lambda>s. wf g s \<and> int (active s) \<le> maxShutdownProcess g"
  have "?P (shutdown_init g)"
    using assms(2) by (simp add: wf_init) (simp add: active_def shutdown_init_def)
  moreover have "\<And>e s s'. ?P s \<Longrightarrow> shutdown_step g e s = Some s' \<Longrightarrow> ?P s'"
    using wf_step cap_step by blast
  ultimately have "?P s"
    using shutdown_steps_invariant [where P = ?P, OF assms(1)] by blast
  then show ?thesis by simp
qed

lemma sound_init: "sound g (shutdown_init g)"
  by (simp add: sound_def shutdown_init_def)

lemma unit_returns_cause:
  "shutdownGroupCause (unit_returns i r s)
     = (case r of None \<Rightarrow> shutdownGroupCause s
        | Some e \<Rightarrow> if shutdownGroup_err s = None
                    then cancel e (shutdownGroupCause s) else shutdownGroupCause s)"
  by (auto simp: unit_returns_def Let_def split: option.splits)

lemma selecting_not_returned:
  "wf g s \<Longrightarrow> i < length (units s) \<Longrightarrow> units s ! i = Selecting \<Longrightarrow> returned s = None"
  using active_pos [of i s] by (auto simp: wf_def)

lemma soundI:
  assumes "\<And>e. shutdownGroup_err s = Some e \<Longrightarrow>
        (e = DeadlineExceeded \<and> shutdownCtx s = Some DeadlineExceeded)
        \<or> (cancelOnError g \<and> (\<exists>t. (t, Some e) \<in> set (logged s)))"
    and "\<And>x. shutdownGroupCtx s = Some x \<Longrightarrow> returned s = None \<Longrightarrow>
        (x = DeadlineExceeded \<and> shutdownCtx s = Some DeadlineExceeded)
        \<or> (x = Canceled \<and> shutdownGroup_err s \<noteq> None)"
    and "\<And>r. returned s = Some r \<Longrightarrow> r = shutdownGroup_err s"
    and "\<And>t e. cancelOnError g \<Longrightarrow> (t, Some e) \<in> set (logged s) \<Longrightarrow>
          shutdownGroup_err s \<noteq> None"
    and "\<And>i x. i < length (units s) \<Longrightarrow> units s ! i = Resolved (Some x) \<Longrightarrow>
          shutdownGroup_err s \<noteq> None"
    and "shutdownGroupCtx s = None \<Longrightarrow> shutdownGroupCause s = None"
  shows "sound g s"
  unfolding sound_def using assms by blast

lemma soundD:
  assumes "sound g s"
  shows "shutdownGroup_err s = Some e \<Longrightarrow>
        (e = DeadlineExceeded \<and> shutdownCtx s = Some DeadlineExceeded)
        \<or> (cancelOnError g \<and> (\<exists>t. (t, Some e) \<in> set (logged s)))"
    and "shutdownGroupCtx s = Some x \<Longrightarrow> returned s = None \<Longrightarrow>
        (x = DeadlineExceeded \<and> shutdownCtx s = Some DeadlineExceeded)
        \<or> (x = Canceled \<and> shutdownGroup_err s \<noteq> None)"
    and "returned s = Some r \<Longrightarrow> r = shutdownGroup_err s"
    and "cancelOnError g \<Longrightarrow> (t, Some e) \<in> set (logged s) \<Longrightarrow>
          shutdownGroup_err s \<noteq> None"
    and "i < length (units s) \<Longrightarrow> units s ! i = Resolved (Some x) \<Longrightarrow>
          shutdownGroup_err s \<noteq> None"
    and "shutdownGroupCtx s = None \<Longrightarrow> shutdownGroupCause s = None"
  using assms unfolding sound_def by blast+

lemma sound_frame:
  assumes so: "sound g s"
    and eq: "shutdownGroup_err s' = shutdownGroup_err s" "shutdownCtx s' = shutdownCtx s"
      "shutdownGroupCtx s' = shutdownGroupCtx s" "shutdownGroupCause s' = shutdownGroupCause s"
      "returned s' = returned s" "logged s' = logged s"
    and u: "\<And>j x. j < length (units s') \<Longrightarrow> units s' ! j = Resolved (Some x) \<Longrightarrow>
      j < length (units s) \<and> units s ! j = Resolved (Some x)"
  shows "sound g s'"
proof (rule soundI)
  show "(e = DeadlineExceeded \<and> shutdownCtx s' = Some DeadlineExceeded)
        \<or> (cancelOnError g \<and> (\<exists>t. (t, Some e) \<in> set (logged s')))"
    if "shutdownGroup_err s' = Some e" for e
    using soundD(1) [OF so, of e] that unfolding eq by simp
  show "(x = DeadlineExceeded \<and> shutdownCtx s' = Some DeadlineExceeded)
        \<or> (x = Canceled \<and> shutdownGroup_err s' \<noteq> None)"
    if "shutdownGroupCtx s' = Some x" "returned s' = None" for x
    using soundD(2) [OF so, of x] that unfolding eq by simp
  show "r = shutdownGroup_err s'" if "returned s' = Some r" for r
    using soundD(3) [OF so, of r] that unfolding eq by simp
  show "shutdownGroup_err s' \<noteq> None"
    if "cancelOnError g" "(t, Some e) \<in> set (logged s')" for t e
    using soundD(4) [OF so, of t e] that unfolding eq by simp
  show "shutdownGroup_err s' \<noteq> None"
    if "j < length (units s')" "units s' ! j = Resolved (Some x)" for j x
    using soundD(5) [OF so, of j x] u [OF that] unfolding eq by simp
  show "shutdownGroupCause s' = None" if "shutdownGroupCtx s' = None"
    using soundD(6) [OF so] that unfolding eq by simp
qed

text \<open>A unit returns: the step common to \<open>ReceiveErr\<close> and \<open>CtxDone\<close>.\<close>

lemma sound_unit_returns:
  assumes wf: "wf g s" and so: "sound g s"
    and i: "i < length (units s)" "units s ! i = Selecting"
    and lg: "set (logged s) \<subseteq> set l"
    and r: "\<And>e. r = Some e \<Longrightarrow>
        (shutdownGroupCtx s = Some e) \<or> (cancelOnError g \<and> (\<exists>t. (t, Some e) \<in> set l))"
    and l: "\<And>t e. cancelOnError g \<Longrightarrow> (t, Some e) \<in> set l \<Longrightarrow> (t, Some e) \<notin> set (logged s)
        \<Longrightarrow> r \<noteq> None"
  shows "sound g (unit_returns i r (s\<lparr>processes := ps, logged := l\<rparr>))"
proof (rule soundI)
  let ?s = "unit_returns i r (s\<lparr>processes := ps, logged := l\<rparr>)"
  have ret: "returned s = None" using selecting_not_returned wf i by blast
  have ge: "shutdownGroup_err s \<noteq> None \<Longrightarrow> shutdownGroupCtx s \<noteq> None"
    using wf by (simp add: wf_def)
  have err: "shutdownGroup_err ?s = (case shutdownGroup_err s of None \<Rightarrow> r | Some e \<Rightarrow> Some e)"
    by (simp add: unit_returns_err)
  have ctx: "shutdownGroupCtx ?s = (if r \<noteq> None \<and> shutdownGroup_err s = None
        then cancel Canceled (shutdownGroupCtx s) else shutdownGroupCtx s)"
    by (simp add: unit_returns_ctx)
  have sc: "shutdownCtx ?s = shutdownCtx s" by simp
  have lo: "logged ?s = l" by simp
  have re: "returned ?s = None" using ret by simp
  show "(e = DeadlineExceeded \<and> shutdownCtx ?s = Some DeadlineExceeded)
        \<or> (cancelOnError g \<and> (\<exists>t. (t, Some e) \<in> set (logged ?s)))"
    if a: "shutdownGroup_err ?s = Some e" for e
  proof (cases "shutdownGroup_err s")
    case None
    then have re: "r = Some e" using a err by simp
    from r [OF this] show ?thesis
    proof
      assume c: "shutdownGroupCtx s = Some e"
      from soundD(2) [OF so c ret] None show ?thesis by (simp add: sc)
    next
      assume "cancelOnError g \<and> (\<exists>t. (t, Some e) \<in> set l)"
      then show ?thesis by (simp add: lo)
    qed
  next
    case (Some e')
    then have "e' = e" using a err by simp
    with soundD(1) [OF so] Some lg show ?thesis unfolding sc lo by blast
  qed
  show "(x = DeadlineExceeded \<and> shutdownCtx ?s = Some DeadlineExceeded)
        \<or> (x = Canceled \<and> shutdownGroup_err ?s \<noteq> None)"
    if a: "shutdownGroupCtx ?s = Some x" "returned ?s = None" for x
  proof (cases "shutdownGroupCtx s")
    case None
    then have "shutdownGroup_err s = None" using ge by blast
    then show ?thesis using a None unfolding err ctx
      by (auto simp: cancel_def split: if_splits)
  next
    case (Some y)
    then have "x = y" using a unfolding ctx by (auto simp: cancel_def split: if_splits)
    with soundD(2) [OF so Some ret] show ?thesis unfolding err sc
      by (auto split: option.splits)
  qed
  show "r' = shutdownGroup_err ?s" if "returned ?s = Some r'" for r'
    using that re by simp
  show "shutdownGroup_err ?s \<noteq> None"
    if a: "cancelOnError g" "(t, Some e) \<in> set (logged ?s)" for t e
  proof (cases "(t, Some e) \<in> set (logged s)")
    case True
    then have "shutdownGroup_err s \<noteq> None" using soundD(4) [OF so a(1)] by blast
    then show ?thesis unfolding err by (auto split: option.splits)
  next
    case False
    then have "r \<noteq> None" using l a lo by simp
    then show ?thesis unfolding err by (auto split: option.splits)
  qed
  show "shutdownGroup_err ?s \<noteq> None"
    if a: "j < length (units ?s)" "units ?s ! j = Resolved (Some x)" for j x
  proof (cases "j = i")
    case True
    then have "r = Some x" using a i by simp
    then show ?thesis unfolding err by (auto split: option.splits)
  next
    case False
    then have "j < length (units s)" "units s ! j = Resolved (Some x)" using a by simp_all
    then have "shutdownGroup_err s \<noteq> None" using soundD(5) [OF so] by blast
    then show ?thesis unfolding err by (auto split: option.splits)
  qed
  show "shutdownGroupCause ?s = None" if a: "shutdownGroupCtx ?s = None"
  proof -
    have c: "shutdownGroupCtx s = None" using a unfolding ctx
      by (auto simp: cancel_def split: if_splits option.splits)
    then have "shutdownGroup_err s = None" using ge by blast
    then have "r = None" using a c unfolding ctx by (auto simp: cancel_def split: if_splits)
    then show ?thesis using soundD(6) [OF so c] by (simp add: unit_returns_cause)
  qed
qed

lemma sound_step:
  assumes "wf g s" and "sound g s" and "shutdown_step g e s = Some s'"
  shows "sound g s'"
proof (cases e)
  case Go
  then have s': "s' = s\<lparr>submitted := Suc (submitted s),
                   units := (units s)[submitted s := Selecting],
                   processes := (processes s)[submitted s := Executing]\<rparr>"
    and sub: "submitted s < length (shutdowns g)"
    using assms(3) by (auto split: if_splits)
  have q: "units s ! submitted s = Queued" using assms(1) sub by (simp add: wf_def)
  have len: "submitted s < length (units s)" using assms(1) sub by (simp add: wf_def)
  have u: "\<And>j x. j < length (units s') \<Longrightarrow> units s' ! j = Resolved (Some x) \<Longrightarrow>
      j < length (units s) \<and> units s ! j = Resolved (Some x)"
    unfolding s' using q len by (auto simp: nth_list_update split: if_splits)
  show ?thesis
    using assms(2) by (rule sound_frame) (simp_all add: s' u [unfolded s'])
next
  case (ProcessReturns i r)
  then have s': "s' = s\<lparr>processes := (processes s)[i := Sending r]\<rparr>"
    using assms(3) by (auto split: if_splits)
  show ?thesis
    using assms(2) by (rule sound_frame) (simp_all add: s')
next
  case (ReceiveErr i)
  then obtain r where s': "s' = unit_returns i (if cancelOnError g then r else None)
           (s\<lparr>processes := (processes s)[i := Delivered],
              logged := logged s @ [(tag (shutdowns g ! i), r)]\<rparr>)"
    and i: "i < length (units s)" "units s ! i = Selecting"
    using assms(3) by (auto split: if_splits process_state.splits)
  show ?thesis
    unfolding s' using assms(1,2) i
    by (rule sound_unit_returns) (auto split: if_splits)
next
  case (CtxDone i)
  then obtain x where s': "s' = unit_returns i (Some x) s"
    and x: "shutdownGroupCtx s = Some x"
    and i: "i < length (units s)" "units s ! i = Selecting"
    using assms(3) by (auto split: if_splits option.splits)
  have "sound g (unit_returns i (Some x) (s\<lparr>processes := processes s, logged := logged s\<rparr>))"
    using assms(1,2) i by (rule sound_unit_returns) (auto simp: x)
  then show ?thesis unfolding s' by simp
next
  case DeadlineFires
  then have s': "s' = s\<lparr>shutdownCtx := Some DeadlineExceeded,
                   shutdownGroupCtx := cancel DeadlineExceeded (shutdownGroupCtx s),
                   shutdownGroupCause := cancel DeadlineExceeded (shutdownGroupCause s)\<rparr>"
    and c: "shutdownCtx s = None"
    using assms(3) by (auto split: if_splits)
  show ?thesis
  proof (rule soundI)
    show "(e = DeadlineExceeded \<and> shutdownCtx s' = Some DeadlineExceeded)
        \<or> (cancelOnError g \<and> (\<exists>t. (t, Some e) \<in> set (logged s')))"
      if "shutdownGroup_err s' = Some e" for e
      using soundD(1) [OF assms(2), of e] that unfolding s' by auto
    show "(x = DeadlineExceeded \<and> shutdownCtx s' = Some DeadlineExceeded)
        \<or> (x = Canceled \<and> shutdownGroup_err s' \<noteq> None)"
      if "shutdownGroupCtx s' = Some x" "returned s' = None" for x
      using soundD(2) [OF assms(2), of x] that c unfolding s'
      by (auto simp: cancel_def split: option.splits)
    show "r = shutdownGroup_err s'" if "returned s' = Some r" for r
      using soundD(3) [OF assms(2), of r] that unfolding s' by simp
    show "shutdownGroup_err s' \<noteq> None"
      if "cancelOnError g" "(t, Some e) \<in> set (logged s')" for t e
      using soundD(4) [OF assms(2), of t e] that unfolding s' by simp
    show "shutdownGroup_err s' \<noteq> None"
      if "j < length (units s')" "units s' ! j = Resolved (Some x)" for j x
      using soundD(5) [OF assms(2), of j x] that unfolding s' by simp
    show "shutdownGroupCause s' = None" if "shutdownGroupCtx s' = None"
      using that unfolding s' by (auto simp: cancel_def split: option.splits)
  qed
next
  case WaitReturns
  then have s': "s' = s\<lparr>returned := Some (shutdownGroup_err s),
                   shutdownGroupCtx := cancel Canceled (shutdownGroupCtx s),
                   shutdownGroupCause := cancel Canceled (shutdownGroupCause s),
                   shutdownCtx := cancel Canceled (shutdownCtx s)\<rparr>"
    and r: "returned s = None"
    using assms(3) by (auto split: if_splits)
  have ge: "shutdownGroupCtx s = None \<Longrightarrow> shutdownCtx s = None"
    using assms(1) by (simp add: wf_def)
  show ?thesis
  proof (rule soundI)
    show "(e = DeadlineExceeded \<and> shutdownCtx s' = Some DeadlineExceeded)
        \<or> (cancelOnError g \<and> (\<exists>t. (t, Some e) \<in> set (logged s')))"
      if "shutdownGroup_err s' = Some e" for e
      using soundD(1) [OF assms(2), of e] that unfolding s' by (auto simp: cancel_def)
    show "(x = DeadlineExceeded \<and> shutdownCtx s' = Some DeadlineExceeded)
        \<or> (x = Canceled \<and> shutdownGroup_err s' \<noteq> None)"
      if "shutdownGroupCtx s' = Some x" "returned s' = None" for x
      using that unfolding s' by simp
    show "r = shutdownGroup_err s'" if "returned s' = Some r" for r
      using that unfolding s' by simp
    show "shutdownGroup_err s' \<noteq> None"
      if "cancelOnError g" "(t, Some e) \<in> set (logged s')" for t e
      using soundD(4) [OF assms(2), of t e] that unfolding s' by simp
    show "shutdownGroup_err s' \<noteq> None"
      if "j < length (units s')" "units s' ! j = Resolved (Some x)" for j x
      using soundD(5) [OF assms(2), of j x] that unfolding s' by simp
    show "shutdownGroupCause s' = None" if "shutdownGroupCtx s' = None"
      using that unfolding s' by (auto simp: cancel_def split: option.splits)
  qed
qed

lemma good_init: "good g (shutdown_init g)"
  by (simp add: good_def wf_init sound_init)

lemma good_step: "good g s \<Longrightarrow> shutdown_step g e s = Some s' \<Longrightarrow> good g s'"
  using wf_step sound_step by (auto simp: good_def)







section \<open>Runs of shutdown(): every run can be completed\<close>


lemma returned_stable_step:
  "shutdown_step g e s = Some s' \<Longrightarrow> returned s = Some r \<Longrightarrow> returned s' = Some r"
  by (cases e) (auto split: if_splits option.splits process_state.splits)


lemma returns_only_append [simp]:
  "returns_only (es @ es') \<longleftrightarrow> returns_only es \<and> returns_only es'"
  by (simp add: returns_only_def)

lemma gives_up_only_append [simp]:
  "gives_up_only (es @ es') \<longleftrightarrow> gives_up_only es \<and> gives_up_only es'"
  by (simp add: gives_up_only_def)






lemma executing_kept_step:
  assumes "shutdown_step g e s = Some s'" and "gives_up_only [e]"
    and "i < length (processes s)" and "processes s ! i = Executing"
  shows "i < length (processes s') \<and> processes s' ! i = Executing"
proof (cases e)
  case Go
  with assms(1) have "shutdown_step g Go s = Some s'" by simp
  then show ?thesis
  proof (rule step_Go)
    assume s': "s' = s\<lparr>submitted := Suc (submitted s),
                   units := (units s)[submitted s := Selecting],
                   processes := (processes s)[submitted s := Executing]\<rparr>"
    show ?thesis unfolding s' using assms(3,4) by (cases "i = submitted s") simp_all
  qed
next
  case (CtxDone j)
  with assms(1) have "shutdown_step g (CtxDone j) s = Some s'" by simp
  then show ?thesis using assms(3,4) by (elim step_CtxDone) simp
next
  case WaitReturns
  with assms(1) have "shutdown_step g WaitReturns s = Some s'" by simp
  then show ?thesis using assms(3,4) by (elim step_WaitReturns) simp
qed (use assms(2) in \<open>simp_all add: gives_up_only_def\<close>)

lemma executing_kept_steps:
  assumes "shutdown_steps g es s = Some s'" and "gives_up_only es"
    and "i < length (processes s)" and "processes s ! i = Executing"
  shows "i < length (processes s') \<and> processes s' ! i = Executing"
proof -
  let ?P = "\<lambda>s. i < length (processes s) \<and> processes s ! i = Executing"
  have "\<And>e s s'. e \<in> set es \<Longrightarrow> ?P s \<Longrightarrow> shutdown_step g e s = Some s' \<Longrightarrow> ?P s'"
  proof -
    fix e s s' assume e: "e \<in> set es" and p: "?P s" and st: "shutdown_step g e s = Some s'"
    have "gives_up_only [e]" using e assms(2) by (simp add: gives_up_only_def list_all_iff)
    then show "?P s'" using executing_kept_step [OF st] p by blast
  qed
  then show ?thesis
    using shutdown_steps_invariant_in [where P = ?P, OF assms(1)] assms(3,4) by blast
qed


section \<open>Runs of Wait(): invariants\<close>

lemma group_returns_fields [simp]:
  "tasks (group_returns r w) = tasks w"
  "signalCtx_err (group_returns r w) = signalCtx_err w"
  "waiter (group_returns r w) = waiter w"
  "shutdown_call (group_returns r w) = shutdown_call w"
  "wait_returned (group_returns r w) = wait_returned w"
  by (auto simp: group_returns_def split: option.splits)

lemma group_returns_err:
  "group_err (group_returns r w) = (case group_err w of None \<Rightarrow> r | Some e \<Rightarrow> Some e)"
  by (auto simp: group_returns_def split: option.splits)

lemma group_returns_ctx:
  "groupCtx_err (group_returns r w)
     = (if r \<noteq> None \<and> group_err w = None then cancel Canceled (groupCtx_err w)
        else groupCtx_err w)"
  by (auto simp: group_returns_def split: option.splits)

lemma wait_Signal:
  assumes "wait_step g Signal w = Some w'"
  obtains "signalCtx_err w = None"
    and "w' = w\<lparr>signalCtx_err := Some Canceled,
                 groupCtx_err := cancel Canceled (groupCtx_err w)\<rparr>"
  using assms by (simp split: if_splits)

lemma wait_ParentDone:
  assumes "wait_step g (ParentDone e) w = Some w'"
  obtains "parent (signalCtx g) \<noteq> Background" and "signalCtx_err w = None"
    and "w' = w\<lparr>signalCtx_err := Some e, groupCtx_err := cancel e (groupCtx_err w)\<rparr>"
  using assms by (simp split: if_splits)

lemma wait_TaskReturns:
  assumes "wait_step g (TaskReturns j r) w = Some w'"
  obtains "j < length (tasks w)" and "tasks w ! j = Running"
    and "w' = group_returns r (w\<lparr>tasks := (tasks w)[j := Finished r]\<rparr>)"
  using assms by (simp split: if_splits)

lemma wait_CallWait:
  assumes "wait_step g CallWait w = Some w'"
  obtains "waiter w = NotCalled" and "w' = w\<lparr>waiter := AwaitDone\<rparr>"
  using assms by (simp split: if_splits)

lemma wait_GroupCtxDone:
  assumes "wait_step g GroupCtxDone w = Some w'"
  obtains "waiter w = AwaitDone" and "groupCtx_err w \<noteq> None" and "shutdowns g \<noteq> []"
      and "w' = w\<lparr>waiter := InShutdown, shutdown_call := Some (shutdown_init g)\<rparr>"
    | "waiter w = AwaitDone" and "groupCtx_err w \<noteq> None" and "shutdowns g = []"
      and "w' = w\<lparr>waiter := WaiterDone None\<rparr>"
  using assms by (auto simp: group_returns_def split: if_splits)

lemma wait_Shutdown:
  assumes "wait_step g (Shutdown e) w = Some w'"
  obtains s s' where "shutdown_call w = Some s" and "shutdown_step g e s = Some s'"
    and "w' = w\<lparr>shutdown_call := Some s'\<rparr>"
  using assms by (auto split: option.splits)

lemma wait_ShutdownReturns:
  assumes "wait_step g ShutdownReturns w = Some w'"
  obtains s r where "waiter w = InShutdown" and "shutdown_call w = Some s"
    and "returned s = Some r" and "w' = group_returns r (w\<lparr>waiter := WaiterDone r\<rparr>)"
  using assms by (auto split: if_splits option.splits)

lemma wait_GroupWaitReturns:
  assumes "wait_step g GroupWaitReturns w = Some w'"
  obtains "wait_returned w = None" and "waiter_done (waiter w)"
    and "list_all (\<lambda>t. t \<noteq> Running) (tasks w)"
    and "w' = w\<lparr>wait_returned := Some (group_err w),
                 groupCtx_err := cancel Canceled (groupCtx_err w),
                 signalCtx_err := cancel Canceled (signalCtx_err w)\<rparr>"
  using assms by (simp split: if_splits)

lemma wait_wf_init: "wait_wf g (wait_init g)"
  by (simp add: wait_wf_def wait_init_def)

lemma wait_sound_init: "wait_sound (wait_init g)"
  by (simp add: wait_sound_def wait_init_def)


lemma wait_wf_step:
  assumes "wait_wf g w" and "wait_step g e w = Some w'"
  shows "wait_wf g w'"
proof (cases e)
  case Signal
  with assms(2) have "wait_step g Signal w = Some w'" by simp
  then show ?thesis using assms(1)
    by (elim wait_Signal) (simp add: wait_wf_def cancel_def split: option.splits)
next
  case (ParentDone x)
  with assms(2) have "wait_step g (ParentDone x) w = Some w'" by simp
  then show ?thesis using assms(1)
    by (elim wait_ParentDone) (simp add: wait_wf_def cancel_def split: option.splits)
next
  case (TaskReturns j r)
  with assms(2) have "wait_step g (TaskReturns j r) w = Some w'" by simp
  then show ?thesis using assms(1)
    by (elim wait_TaskReturns)
      (auto simp: wait_wf_def list_all_length group_returns_ctx cancel_def split: option.splits)
next
  case CallWait
  with assms(2) have "wait_step g CallWait w = Some w'" by simp
  then show ?thesis using assms(1) by (elim wait_CallWait) (auto simp: wait_wf_def)
next
  case GroupCtxDone
  with assms(2) have "wait_step g GroupCtxDone w = Some w'" by simp
  then show ?thesis using assms(1)
    by (elim wait_GroupCtxDone) (auto simp: wait_wf_def good_init)
next
  case (Shutdown ev)
  with assms(2) have "wait_step g (Shutdown ev) w = Some w'" by simp
  then show ?thesis
  proof (rule wait_Shutdown)
    fix s s' assume s: "shutdown_call w = Some s" and st: "shutdown_step g ev s = Some s'"
      and w': "w' = w\<lparr>shutdown_call := Some s'\<rparr>"
    have "good g s'" using assms(1) s st good_step by (auto simp: wait_wf_def)
    moreover have "returned s = Some r \<Longrightarrow> returned s' = Some r" for r
      using st by (rule returned_stable_step)
    ultimately show ?thesis using assms(1) s unfolding w'
      by (auto simp: wait_wf_def)
  qed
next
  case ShutdownReturns
  with assms(2) have "wait_step g ShutdownReturns w = Some w'" by simp
  then show ?thesis using assms(1)
    by (elim wait_ShutdownReturns)
      (auto simp: wait_wf_def group_returns_ctx cancel_def split: option.splits)
next
  case GroupWaitReturns
  with assms(2) have "wait_step g GroupWaitReturns w = Some w'" by simp
  then show ?thesis using assms(1)
    by (elim wait_GroupWaitReturns) (auto simp: wait_wf_def cancel_def split: option.splits)
qed

lemma wait_steps_append:
  "wait_steps g (es1 @ es2) w =
     (case wait_steps g es1 w of None \<Rightarrow> None | Some w' \<Rightarrow> wait_steps g es2 w')"
  by (induction es1 arbitrary: w) (auto split: option.splits)

lemma wait_steps_invariant_in:
  assumes "wait_steps g es w0 = Some w" and "P w0"
    and "\<And>e w w'. e \<in> set es \<Longrightarrow> P w \<Longrightarrow> wait_step g e w = Some w' \<Longrightarrow> P w'"
  shows "P w"
  using assms
proof (induction es arbitrary: w0)
  case Nil
  then show ?case by simp
next
  case (Cons e es)
  from Cons.prems(1) obtain w1 where w1: "wait_step g e w0 = Some w1"
    and rest: "wait_steps g es w1 = Some w"
    by (auto split: option.splits)
  have "P w1" using Cons.prems(3) [of e w0 w1] Cons.prems(2) w1 by simp
  moreover have "\<And>e' t t'. e' \<in> set es \<Longrightarrow> P t \<Longrightarrow> wait_step g e' t = Some t' \<Longrightarrow> P t'"
    using Cons.prems(3) by (meson list.set_intros(2))
  ultimately show ?case using Cons.IH [OF rest] by blast
qed

lemma wait_steps_invariant:
  assumes "wait_steps g es w0 = Some w" and "P w0"
    and "\<And>e w w'. P w \<Longrightarrow> wait_step g e w = Some w' \<Longrightarrow> P w'"
  shows "P w"
  using wait_steps_invariant_in [where P = P, OF assms(1,2)] assms(3) by blast

lemma wait_sound_step:
  assumes "wait_wf g w" and "wait_sound w" and "wait_step g e w = Some w'"
  shows "wait_sound w'"
proof (cases e)
  case Signal
  with assms(3) have "wait_step g Signal w = Some w'" by simp
  then show ?thesis using assms(2) by (elim wait_Signal) (simp add: wait_sound_def)
next
  case (ParentDone x)
  with assms(3) have "wait_step g (ParentDone x) w = Some w'" by simp
  then show ?thesis using assms(2) by (elim wait_ParentDone) (simp add: wait_sound_def)
next
  case (TaskReturns j r)
  with assms(3) have "wait_step g (TaskReturns j r) w = Some w'" by simp
  then show ?thesis
  proof (rule wait_TaskReturns)
    assume j: "j < length (tasks w)" "tasks w ! j = Running"
      and w': "w' = group_returns r (w\<lparr>tasks := (tasks w)[j := Finished r]\<rparr>)"
    have nr: "wait_returned w = None"
      using assms(1) j by (cases "wait_returned w") (auto simp: wait_wf_def list_all_length)
    show ?thesis
      unfolding wait_sound_def
    proof (intro conjI allI impI)
      fix e assume a: "group_err w' = Some e"
      show "(\<exists>k<length (tasks w'). tasks w' ! k = Finished (Some e))
             \<or> waiter w' = WaiterDone (Some e)"
      proof (cases "group_err w")
        case None
        then have "r = Some e" using a unfolding w' by (simp add: group_returns_err)
        then show ?thesis using j unfolding w' by auto
      next
        case (Some e')
        then have "e' = e" using a unfolding w' by (simp add: group_returns_err)
        then have "(\<exists>k<length (tasks w). tasks w ! k = Finished (Some e))
             \<or> waiter w = WaiterDone (Some e)"
          using assms(2) Some by (simp add: wait_sound_def)
        then show ?thesis
        proof
          assume "\<exists>k<length (tasks w). tasks w ! k = Finished (Some e)"
          then obtain k where k: "k < length (tasks w)" "tasks w ! k = Finished (Some e)"
            by blast
          then have "k \<noteq> j" using j by auto
          then show ?thesis using k unfolding w' by auto
        next
          assume "waiter w = WaiterDone (Some e)"
          then show ?thesis unfolding w' by simp
        qed
      qed
    next
      fix e assume "waiter w' = WaiterDone (Some e)"
      then have "group_err w \<noteq> None" using assms(2) unfolding w' by (simp add: wait_sound_def)
      then show "group_err w' \<noteq> None"
        unfolding w' by (auto simp: group_returns_err split: option.splits)
    next
      fix k e assume a: "k < length (tasks w') \<and> tasks w' ! k = Finished (Some e)"
      show "group_err w' \<noteq> None"
      proof (cases "k = j")
        case True
        then have "r = Some e" using a j unfolding w' by simp
        then show ?thesis unfolding w' by (auto simp: group_returns_err split: option.splits)
      next
        case False
        then have "k < length (tasks w) \<and> tasks w ! k = Finished (Some e)"
          using a unfolding w' by simp
        then have "group_err w \<noteq> None" using assms(2) unfolding wait_sound_def by blast
        then show ?thesis unfolding w' by (auto simp: group_returns_err split: option.splits)
      qed
    next
      fix x assume "wait_returned w' = Some x"
      then show "x = group_err w'" using nr unfolding w' by simp
    qed
  qed
next
  case CallWait
  with assms(3) have "wait_step g CallWait w = Some w'" by simp
  then show ?thesis using assms(2) by (elim wait_CallWait) (auto simp: wait_sound_def)
next
  case GroupCtxDone
  with assms(3) have "wait_step g GroupCtxDone w = Some w'" by simp
  then show ?thesis using assms(2)
    by (elim wait_GroupCtxDone) (auto simp: wait_sound_def)
next
  case (Shutdown ev)
  with assms(3) have "wait_step g (Shutdown ev) w = Some w'" by simp
  then show ?thesis using assms(2) by (elim wait_Shutdown) (simp add: wait_sound_def)
next
  case ShutdownReturns
  with assms(3) have "wait_step g ShutdownReturns w = Some w'" by simp
  then show ?thesis
  proof (rule wait_ShutdownReturns)
    fix s r assume i: "waiter w = InShutdown"
      and w': "w' = group_returns r (w\<lparr>waiter := WaiterDone r\<rparr>)"
    have nr: "wait_returned w = None"
      using assms(1) i by (cases "wait_returned w") (auto simp: wait_wf_def)
    show ?thesis
      unfolding wait_sound_def
    proof (intro conjI allI impI)
      fix e assume a: "group_err w' = Some e"
      show "(\<exists>k<length (tasks w'). tasks w' ! k = Finished (Some e))
             \<or> waiter w' = WaiterDone (Some e)"
      proof (cases "group_err w")
        case None
        then have "r = Some e" using a unfolding w' by (simp add: group_returns_err)
        then show ?thesis unfolding w' by simp
      next
        case (Some e')
        then have "e' = e" using a unfolding w' by (simp add: group_returns_err)
        then have "(\<exists>k<length (tasks w). tasks w ! k = Finished (Some e))
             \<or> waiter w = WaiterDone (Some e)"
          using assms(2) Some by (simp add: wait_sound_def)
        then show ?thesis using i unfolding w' by auto
      qed
    next
      fix e assume "waiter w' = WaiterDone (Some e)"
      then have "r = Some e" unfolding w' by simp
      then show "group_err w' \<noteq> None"
        unfolding w' by (auto simp: group_returns_err split: option.splits)
    next
      fix k e assume a: "k < length (tasks w') \<and> tasks w' ! k = Finished (Some e)"
      then have "k < length (tasks w) \<and> tasks w ! k = Finished (Some e)"
        unfolding w' by simp
      then have "group_err w \<noteq> None" using assms(2) unfolding wait_sound_def by blast
      then show "group_err w' \<noteq> None"
        unfolding w' by (auto simp: group_returns_err split: option.splits)
    next
      fix x assume "wait_returned w' = Some x"
      then show "x = group_err w'" using nr unfolding w' by simp
    qed
  qed
next
  case GroupWaitReturns
  with assms(3) have "wait_step g GroupWaitReturns w = Some w'" by simp
  then show ?thesis using assms(2)
    by (elim wait_GroupWaitReturns) (auto simp: wait_sound_def)
qed

lemma wait_good_reachable:
  assumes "wait_steps g es (wait_init g) = Some w"
  shows "wait_good g w"
proof -
  have "wait_good g (wait_init g)" by (simp add: wait_good_def wait_wf_init wait_sound_init)
  moreover have "\<And>e w w'. wait_good g w \<Longrightarrow> wait_step g e w = Some w' \<Longrightarrow> wait_good g w'"
    using wait_wf_step wait_sound_step by (auto simp: wait_good_def)
  ultimately show ?thesis
    using wait_steps_invariant [where P = "wait_good g", OF assms] by blast
qed

lemma wait_wf_reachable: "wait_steps g es (wait_init g) = Some w \<Longrightarrow> wait_wf g w"
  using wait_good_reachable by (auto simp: wait_good_def)




section \<open>Runs of Wait(): every run can be completed\<close>

lemma calm_append [simp]: "calm (es @ es') \<longleftrightarrow> calm es \<and> calm es'"
  by (simp add: calm_def)





lemma wait_steps_append_Some:
  "wait_steps g es w = Some w1 \<Longrightarrow> wait_steps g es' w1 = Some w2 \<Longrightarrow>
   wait_steps g (es @ es') w = Some w2"
  by (simp add: wait_steps_append)







lemma TestGraceful_Run_eq:
  "TestGraceful_Run =
     \<lparr>groupCtx = GroupContext (NotifyContext Background defaultSignals),
      signalCtx = NotifyContext Background defaultSignals,
      group = [Task 0, TaskWithContext 1 (GroupContext (NotifyContext Background defaultSignals))],
      shutdowns = [\<lparr>id_shutdown = ''uuid-1'', tag = ''test app fiber'', process = 2\<rparr>,
                   \<lparr>id_shutdown = ''uuid-2'', tag = ''uuid-2'', process = 3\<rparr>],
      maxShutdownTime = Second,
      maxShutdownProcess = 1,
      cancelOnError = False\<rparr>"
  by (simp add: TestGraceful_Run_def calls_def New_def NewWithContext_def Let_def
      SetCancelOnError_def SetMaxShutdownTime_def SetMaxShutdownProcess_def
      RegisterProcess_def RegisterProcessWithContext_def RegisterShutdownProcess_def
      RegisterShutdownProcessWithTag_def newShutdown_def Second_def
      defaultMaxShutdownProcess_def)

lemma TestGraceful_CancelOnError_eq:
  "TestGraceful_CancelOnError =
     \<lparr>groupCtx = GroupContext (NotifyContext Background defaultSignals),
      signalCtx = NotifyContext Background defaultSignals,
      group = [Task 0],
      shutdowns = [\<lparr>id_shutdown = ''uuid-1'', tag = ''uuid-1'', process = 1\<rparr>],
      maxShutdownTime = defaultMaxShutdownTime,
      maxShutdownProcess = 5,
      cancelOnError = True\<rparr>"
  by (simp add: TestGraceful_CancelOnError_def calls_def New_def NewWithContext_def Let_def
      SetCancelOnError_def RegisterProcess_def RegisterShutdownProcess_def
      RegisterShutdownProcessWithTag_def newShutdown_def defaultMaxShutdownProcess_def)

section \<open>The concurrency cap\<close>

lemma count_list_le:
  "length xs = length ys \<Longrightarrow> (\<forall>i < length xs. xs ! i = a \<longrightarrow> ys ! i = b) \<Longrightarrow>
   count_list xs a \<le> count_list ys b"
proof (induction xs ys rule: list_induct2)
  case Nil
  then show ?case by simp
next
  case (Cons x xs y ys)
  have "\<forall>i < length xs. xs ! i = a \<longrightarrow> ys ! i = b"
  proof (intro allI impI)
    fix i assume "i < length xs" "xs ! i = a"
    then show "ys ! i = b" using Cons.prems [rule_format, of "Suc i"] by simp
  qed
  then have ih: "count_list xs a \<le> count_list ys b" by (rule Cons.IH)
  have "x = a \<longrightarrow> y = b" using Cons.prems [rule_format, of 0] by simp
  then show ?case using ih by auto
qed

text \<open>While no unit has left through the context, a process that runs has its unit waiting.\<close>

lemma executing_selecting_step:
  assumes w: "wf g s" and st: "shutdown_step g e s = Some s'"
    and e: "\<forall>i. e \<noteq> CtxDone i"
    and p: "\<forall>i < length (shutdowns g). processes s ! i = Executing \<longrightarrow> units s ! i = Selecting"
  shows "\<forall>i < length (shutdowns g). processes s' ! i = Executing \<longrightarrow> units s' ! i = Selecting"
proof (cases e)
  case Go
  with st have "shutdown_step g Go s = Some s'" by simp
  then show ?thesis
  proof (rule step_Go)
    assume sub: "submitted s < length (shutdowns g)"
      and s': "s' = s\<lparr>submitted := Suc (submitted s),
                   units := (units s)[submitted s := Selecting],
                   processes := (processes s)[submitted s := Executing]\<rparr>"
    have len: "length (units s) = length (shutdowns g)" "length (processes s) = length (shutdowns g)"
      using w by (simp_all add: wf_def)
    show ?thesis unfolding s' using p sub len by (simp add: nth_list_update)
  qed
next
  case (ProcessReturns i r)
  with st have "shutdown_step g (ProcessReturns i r) s = Some s'" by simp
  then show ?thesis
  proof (rule step_ProcessReturns)
    assume i: "i < length (processes s)"
      and s': "s' = s\<lparr>processes := (processes s)[i := Sending r]\<rparr>"
    show ?thesis unfolding s' using p i by (simp add: nth_list_update)
  qed
next
  case (ReceiveErr i)
  with st have "shutdown_step g (ReceiveErr i) s = Some s'" by simp
  then show ?thesis
  proof (rule step_ReceiveErr)
    fix r assume i: "i < length (units s)" "i < length (processes s)"
      and s': "s' = unit_returns i (if cancelOnError g then r else None)
           (s\<lparr>processes := (processes s)[i := Delivered],
              logged := logged s @ [(tag (shutdowns g ! i), r)]\<rparr>)"
    show ?thesis unfolding s' using p i by (simp add: nth_list_update)
  qed
next
  case (CtxDone i)
  then show ?thesis using e by simp
next
  case DeadlineFires
  with st have "shutdown_step g DeadlineFires s = Some s'" by simp
  then show ?thesis using p by (elim step_DeadlineFires) simp
next
  case WaitReturns
  with st have "shutdown_step g WaitReturns s = Some s'" by simp
  then show ?thesis using p by (elim step_WaitReturns) simp
qed

lemma running_le_active:
  assumes run: "shutdown_steps g es (shutdown_init g) = Some s"
    and nc: "\<forall>i. CtxDone i \<notin> set es"
  shows "running s \<le> active s"
proof -
  let ?P = "\<lambda>s. wf g s \<and> (\<forall>i < length (shutdowns g).
      processes s ! i = Executing \<longrightarrow> units s ! i = Selecting)"
  have init: "?P (shutdown_init g)" by (simp add: wf_init) (simp add: shutdown_init_def)
  have step: "?P t'" if e: "e \<in> set es" and p: "?P t" and st: "shutdown_step g e t = Some t'"
    for e t t'
  proof -
    have "\<forall>i. e \<noteq> CtxDone i" using e nc by auto
    then show ?thesis using executing_selecting_step [OF _ st] wf_step [OF _ st] p by blast
  qed
  have P: "?P s"
    using shutdown_steps_invariant_in [where P = ?P, OF run init] step by blast
  then have len: "length (processes s) = length (units s)"
    and n: "length (processes s) = length (shutdowns g)" by (simp_all add: wf_def)
  have "count_list (processes s) Executing \<le> count_list (units s) Selecting"
    using len P n by (intro count_list_le) simp_all
  then show ?thesis by (simp add: running_def active_def)
qed

text \<open>
  C9, as the code has it. In every state that a call of \<^verbatim>\<open>shutdown()\<close> can reach,
  whatever the number of hooks, at most \<open>maxShutdownProcess\<close> execution units (the
  functions handed to \<^verbatim>\<open>shutdownGroup.Go\<close>) are admitted and not yet returned. When that
  many are, the loop's \<^verbatim>\<open>Go\<close> cannot proceed; when fewer are and a hook is left,
  \<^verbatim>\<open>Go\<close> admits the next hook in the order of registration. The hook functions
  themselves are within the cap as long as no unit has left through the context's
  \<^verbatim>\<open>Done\<close>. (The cap is at least 1 for every receiver, see \<open>maxShutdownProcess_calls\<close>.)
\<close>

theorem C9_units_cap:
  assumes "shutdown_steps g es (shutdown_init g) = Some s" and "0 \<le> maxShutdownProcess g"
  shows "int (active s) \<le> maxShutdownProcess g
     \<and> (int (active s) = maxShutdownProcess g \<longrightarrow> shutdown_step g Go s = None)
     \<and> (int (active s) < maxShutdownProcess g \<and> submitted s < length (shutdowns g) \<longrightarrow>
          (\<exists>s'. shutdown_step g Go s = Some s' \<and> units s' ! submitted s = Selecting
             \<and> active s' = Suc (active s)))
     \<and> ((\<forall>i. CtxDone i \<notin> set es) \<longrightarrow> int (running s) \<le> maxShutdownProcess g)"
proof -
  have w: "wf g s" using assms(1) by (rule wf_reachable)
  have a: "int (active s) \<le> maxShutdownProcess g" using assms by (rule cap_reachable)
  have b: "shutdown_step g Go s = None" if "int (active s) = maxShutdownProcess g"
    using that assms(2) by simp
  have c: "\<exists>s'. shutdown_step g Go s = Some s' \<and> units s' ! submitted s = Selecting
             \<and> active s' = Suc (active s)"
    if lt: "int (active s) < maxShutdownProcess g" and sub: "submitted s < length (shutdowns g)"
  proof -
    have r: "returned s = None" using w sub by (auto simp: wf_def)
    have len: "submitted s < length (units s)" using w sub by (simp add: wf_def)
    obtain s' where s': "shutdown_step g Go s = Some s'" using r lt sub by simp
    have "units s' ! submitted s = Selecting" using s' len by (auto split: if_splits)
    moreover have "active s' = Suc (active s)" using w s' by (rule active_Go)
    ultimately show ?thesis using s' by blast
  qed
  have d: "int (running s) \<le> maxShutdownProcess g" if "\<forall>i. CtxDone i \<notin> set es"
    using running_le_active [OF assms(1) that] a by simp
  show ?thesis using a b c d by blast
qed

theorem C9_units_cap_witness:
  "map_option active
     (shutdown_steps TestGraceful_Run [Go] (shutdown_init TestGraceful_Run)) = Some 1
   \<and> map_option running
     (shutdown_steps TestGraceful_Run [Go] (shutdown_init TestGraceful_Run)) = Some 1
   \<and> map_option (shutdown_step TestGraceful_Run Go)
     (shutdown_steps TestGraceful_Run [Go] (shutdown_init TestGraceful_Run)) = Some None
   \<and> maxShutdownProcess TestGraceful_Run = 1"
proof -
  let ?g = TestGraceful_Run
  let ?X = "shutdown_steps ?g [Go] (shutdown_init ?g)"
  have one: "maxShutdownProcess ?g = 1" by code_simp
  have "map_option active ?X = Some 1" by code_simp
  then obtain s where s: "?X = Some s" "active s = 1" by auto
  have lim: "0 \<le> maxShutdownProcess ?g" by (simp add: one)
  have nc: "\<forall>i. CtxDone i \<notin> set [Go]" by simp
  have "int (active s) = maxShutdownProcess ?g" using s(2) one by simp
  then have g: "shutdown_step ?g Go s = None" and r: "int (running s) \<le> 1"
    using C9_units_cap [OF s(1) lim] nc one by auto
  have "map_option running ?X \<noteq> Some 0" by code_simp
  then have "running s = 1" using r s(1) by auto
  then show ?thesis using s g one by simp
qed

text \<open>
  C9, as stated for the hooks that run: it fails once a unit gives up. With the receiver
  of \<^verbatim>\<open>TestGraceful_Run\<close> (cap 1, two hooks): the first hook is admitted, the deadline
  fires, its unit returns through \<^verbatim>\<open>ctx.Done()\<close> and frees the slot while its function
  keeps running, and the second hook is admitted: two hook functions run at once under a
  cap of 1, one unit holds a slot, and \<^verbatim>\<open>shutdown()\<close> has not returned.
\<close>

theorem C9_functions_exceed_cap:
  "maxShutdownProcess TestGraceful_Run = 1
   \<and> map_option running
       (shutdown_steps TestGraceful_Run [Go, DeadlineFires, CtxDone 0, Go]
         (shutdown_init TestGraceful_Run)) = Some 2
   \<and> map_option active
       (shutdown_steps TestGraceful_Run [Go, DeadlineFires, CtxDone 0, Go]
         (shutdown_init TestGraceful_Run)) = Some 1
   \<and> map_option processes
       (shutdown_steps TestGraceful_Run [Go, DeadlineFires, CtxDone 0, Go]
         (shutdown_init TestGraceful_Run)) = Some [Executing, Executing]
   \<and> map_option returned
       (shutdown_steps TestGraceful_Run [Go, DeadlineFires, CtxDone 0, Go]
         (shutdown_init TestGraceful_Run)) = Some None"
  by code_simp

section \<open>Hook failures without cancelOnError\<close>










section \<open>Hook failures with cancelOnError\<close>












end
